theory Spec2Isabelle
  imports Main
begin

section \<open>Go values shared by the cluster and the load bot\<close>

text \<open>
  A Go \<open>error\<close> value is modelled as \<open>error option\<close>: \<open>None\<close> is \<open>nil\<close>.
  \<open>Canceled\<close> and \<open>DeadlineExceeded\<close> are the two values a context's \<open>Err()\<close> can
  take once it is done; \<open>Failure\<close> is any other error of a collaborator
  (node process, RPC client), and \<open>Errorf msg e\<close> is \<open>fmt.Errorf("msg: %w", e)\<close>.
\<close>

datatype error =
    Canceled
  | DeadlineExceeded
  | Failure string
  | Errorf string error

text \<open>\<open>errors.Is(e, context.Canceled)\<close>: the error is the cancellation, possibly wrapped.\<close>

fun is_Canceled :: "error \<Rightarrow> bool" where
  "is_Canceled Canceled = True"
| "is_Canceled (Errorf msg e) = is_Canceled e"
| "is_Canceled DeadlineExceeded = False"
| "is_Canceled (Failure msg) = False"

record env_Account =
  Address :: string
  PrivateKey :: string

section \<open>Cluster (package cluster)\<close>

text \<open>
  The environment is an external collaborator; the cluster reads four things of it:
  \<open>ValidatorAccounts()\<close>, \<open>ValidatorDatadir(i)\<close>, \<open>Config.ChainID\<close> and \<open>GenesisPath()\<close>.
\<close>

record env_Environment =
  ValidatorAccounts :: "env_Account list"
  ValidatorDatadir :: "nat \<Rightarrow> string"
  ChainID :: int
  GenesisPath :: string

record NodeConfig =
  GethPath :: string
  Number :: nat
  Account :: env_Account
  Datadir :: string
  NodeChainID :: int

text \<open>\<open>NewNode(cfg)\<close> wraps its configuration; a \<open>*Node\<close> is the node it points to.\<close>

datatype Node = NewNode (Config: NodeConfig)

abbreviation num :: "Node \<Rightarrow> nat" where
  "num node \<equiv> Number (Config node)"

text \<open>The \<open>nodes\<close> slice is \<open>nil\<close> (\<open>None\<close>) until \<open>ensureNodes\<close> builds it; an empty,
  non-nil slice is \<open>Some []\<close>.\<close>

record Cluster =
  env :: env_Environment
  gethPath :: string
  nodes :: "Node list option"

definition New :: "env_Environment \<Rightarrow> string \<Rightarrow> Cluster" where
  "New e g = \<lparr>env = e, gethPath = g, nodes = None\<rparr>"

text \<open>The body of the loop of \<open>ensureNodes\<close>: the node for validator \<open>i\<close>.\<close>

definition mkNode :: "Cluster \<Rightarrow> nat \<Rightarrow> env_Account \<Rightarrow> Node" where
  "mkNode cl i validator =
     NewNode \<lparr>GethPath = gethPath cl, Number = i, Account = validator,
              Datadir = ValidatorDatadir (env cl) i, NodeChainID = ChainID (env cl)\<rparr>"

text \<open>\<open>for i, validator := range validators { cl.nodes[i] = NewNode(...) }\<close> over a slice
  made with \<open>len(validators)\<close> entries: entry \<open>i\<close> is the node of validator \<open>i\<close>.\<close>

fun buildNodes :: "Cluster \<Rightarrow> nat \<Rightarrow> env_Account list \<Rightarrow> Node list" where
  "buildNodes cl i [] = []"
| "buildNodes cl i (validator # rest) = mkNode cl i validator # buildNodes cl (Suc i) rest"

text \<open>\<open>ensureNodes\<close> returns the node list and the cluster with the list stored.\<close>

definition ensureNodes :: "Cluster \<Rightarrow> Node list \<times> Cluster" where
  "ensureNodes cl =
     (case nodes cl of
        None \<Rightarrow>
          (let validators = ValidatorAccounts (env cl);
               ns = buildNodes cl 0 validators
           in (ns, cl\<lparr>nodes := Some ns\<rparr>))
      | Some ns \<Rightarrow> (ns, cl))"

subsection \<open>The node processes\<close>

text \<open>
  \<open>Node.Init\<close>, \<open>Node.EnodeURL\<close>, \<open>Node.SetStaticNodes\<close> and \<open>Node.Run\<close> belong to the node
  process, an external collaborator. Within one run of \<open>Cluster.Init\<close> each of them is
  called at most once per node, so what they return is given per node number.
  \<open>EnodeURL\<close> returns a pair \<open>(string, error)\<close>, as in Go.
\<close>

record node_world =
  on_Init :: "nat \<Rightarrow> string \<Rightarrow> error option"
  on_EnodeURL :: "nat \<Rightarrow> string \<times> error option"
  on_SetStaticNodes :: "nat \<Rightarrow> string list \<Rightarrow> error option"

text \<open>Every call the cluster makes on a node is recorded, in order.\<close>

datatype node_call =
    Call_Init nat string
  | Call_EnodeURL nat
  | Call_SetStaticNodes nat "string list"

fun call_node :: "node_call \<Rightarrow> nat" where
  "call_node (Call_Init n g) = n"
| "call_node (Call_EnodeURL n) = n"
| "call_node (Call_SetStaticNodes n us) = n"

fun is_SetStaticNodes :: "node_call \<Rightarrow> bool" where
  "is_SetStaticNodes (Call_SetStaticNodes n us) = True"
| "is_SetStaticNodes (Call_Init n g) = False"
| "is_SetStaticNodes (Call_EnodeURL n) = False"

definition Node_Init :: "node_world \<Rightarrow> Node \<Rightarrow> string \<Rightarrow> error option" where
  "Node_Init w node g = on_Init w (Number (Config node)) g"

definition Node_EnodeURL :: "node_world \<Rightarrow> Node \<Rightarrow> string \<times> error option" where
  "Node_EnodeURL w node = on_EnodeURL w (Number (Config node))"

definition Node_SetStaticNodes :: "node_world \<Rightarrow> Node \<Rightarrow> string list \<Rightarrow> error option" where
  "Node_SetStaticNodes w node urls = on_SetStaticNodes w (Number (Config node)) urls"

subsection \<open>Cluster.Init\<close>

text \<open>
  The first loop of \<open>Init\<close>: \<open>geth init\<close> on node \<open>i\<close>, then \<open>enodeUrls[i], err = node.EnodeURL()\<close>.
  The arguments are the nodes still to visit, the index \<open>i\<close> of the first of them, the
  \<open>enodeUrls\<close> slice and the calls made so far.
\<close>

fun Init_nodes ::
  "node_world \<Rightarrow> string \<Rightarrow> Node list \<Rightarrow> nat \<Rightarrow> string list \<Rightarrow> node_call list
     \<Rightarrow> error option \<times> string list \<times> node_call list" where
  "Init_nodes w g [] i enodeUrls calls = (None, enodeUrls, calls)"
| "Init_nodes w g (node # rest) i enodeUrls calls =
     (case Node_Init w node g of
        Some e \<Rightarrow> (Some e, enodeUrls, calls @ [Call_Init (Number (Config node)) g])
      | None \<Rightarrow>
          (case Node_EnodeURL w node of
             (url, err) \<Rightarrow>
               (let enodeUrls' = enodeUrls[i := url];
                    calls' = calls @ [Call_Init (Number (Config node)) g,
                                      Call_EnodeURL (Number (Config node))]
                in case err of
                     Some e \<Rightarrow> (Some e, enodeUrls', calls')
                   | None \<Rightarrow> Init_nodes w g rest (Suc i) enodeUrls' calls')))"

text \<open>\<open>append(append(nil, enodeUrls[:i]...), enodeUrls[i+1:]...)\<close>\<close>

definition peer_urls :: "string list \<Rightarrow> nat \<Rightarrow> string list" where
  "peer_urls enodeUrls i = take i enodeUrls @ drop (i + 1) enodeUrls"

text \<open>The second loop of \<open>Init\<close>: push the other nodes' URLs to node \<open>i\<close>.\<close>

fun Connect_nodes ::
  "node_world \<Rightarrow> Node list \<Rightarrow> nat \<Rightarrow> string list \<Rightarrow> node_call list
     \<Rightarrow> error option \<times> node_call list" where
  "Connect_nodes w [] i enodeUrls calls = (None, calls)"
| "Connect_nodes w (node # rest) i enodeUrls calls =
     (let urls = peer_urls enodeUrls i;
          calls' = calls @ [Call_SetStaticNodes (Number (Config node)) urls]
      in case Node_SetStaticNodes w node urls of
           Some e \<Rightarrow> (Some e, calls')
         | None \<Rightarrow> Connect_nodes w rest (Suc i) enodeUrls calls')"

text \<open>\<open>Cluster.Init\<close>: the error returned, the calls made on the nodes, the cluster after.\<close>

definition Cluster_Init :: "node_world \<Rightarrow> Cluster \<Rightarrow> error option \<times> node_call list \<times> Cluster" where
  "Cluster_Init w cl =
     (case ensureNodes cl of
        (ns, cl') \<Rightarrow>
          (case Init_nodes w (GenesisPath (env cl')) ns 0 (replicate (length ns) []) [] of
             (Some e, enodeUrls, calls) \<Rightarrow> (Some e, calls, cl')
           | (None, enodeUrls, calls) \<Rightarrow>
               (case Connect_nodes w ns 0 enodeUrls calls of
                  (err, calls') \<Rightarrow> (err, calls', cl'))))"

text \<open>The static peer lists pushed to node \<open>n\<close>, in the order they were pushed.\<close>

definition static_peers :: "node_call list \<Rightarrow> nat \<Rightarrow> string list list" where
  "static_peers calls n =
     concat (map (\<lambda>c. case c of Call_SetStaticNodes m us \<Rightarrow> (if m = n then [us] else [])
                             | _ \<Rightarrow> []) calls)"

subsection \<open>Cluster.PrintNodeInfo\<close>

text \<open>Returns the error, the lines printed (validator index and URL) and the cluster.\<close>

fun Print_nodes ::
  "node_world \<Rightarrow> Node list \<Rightarrow> nat \<Rightarrow> (nat \<times> string) list \<Rightarrow> error option \<times> (nat \<times> string) list" where
  "Print_nodes w [] i out = (None, out)"
| "Print_nodes w (node # rest) i out =
     (case Node_EnodeURL w node of
        (url, Some e) \<Rightarrow> (Some e, out)
      | (url, None) \<Rightarrow> Print_nodes w rest (Suc i) (out @ [(i, url)]))"

definition Cluster_PrintNodeInfo ::
  "node_world \<Rightarrow> Cluster \<Rightarrow> error option \<times> (nat \<times> string) list \<times> Cluster" where
  "Cluster_PrintNodeInfo w cl =
     (case ensureNodes cl of
        (ns, cl') \<Rightarrow> (case Print_nodes w ns 0 [] of (err, out) \<Rightarrow> (err, out, cl')))"

subsection \<open>The task group\<close>

text \<open>
  Modelled from the spec: \<open>golang.org/x/sync/errgroup\<close> is a library outside the
  repository's sources. The spec describes it as a task group "offering spawn(fn),
  wait() (blocks for all, returns first error), and an associated cancellable signal
  automatically triggered on first error". The group keeps the first non-nil error a
  task returned and whether its context has been cancelled.
\<close>

record Group =
  g_err :: "error option"
  g_canceled :: bool

definition group_WithContext :: Group where
  "group_WithContext = \<lparr>g_err = None, g_canceled = False\<rparr>"

text \<open>A task of the group returns \<open>r\<close>: only the first non-nil error is kept, and
  keeping it cancels the context.\<close>

definition task_returns :: "Group \<Rightarrow> error option \<Rightarrow> Group" where
  "task_returns g r =
     (case r of
        None \<Rightarrow> g
      | Some e \<Rightarrow>
          (case g_err g of
             Some first \<Rightarrow> g
           | None \<Rightarrow> g\<lparr>g_err := Some e, g_canceled := True\<rparr>))"

text \<open>The group after the given returns, in the order the tasks returned.\<close>

definition group_after :: "error option list \<Rightarrow> Group" where
  "group_after rs = foldl task_returns group_WithContext rs"

text \<open>\<open>group.Wait()\<close>, for the tasks \<open>started\<close> and the returns observed, a list of
  (task, result) in the order of return: it blocks (\<open>None\<close>) until every started task
  has returned, and then returns the error the group kept.\<close>

definition group_Wait :: "nat list \<Rightarrow> (nat \<times> error option) list \<Rightarrow> error option option" where
  "group_Wait started returns =
     (if list_all (\<lambda>n. n \<in> set (map fst returns)) started
      then Some (g_err (group_after (map snd returns)))
      else None)"

subsection \<open>Cluster.Run\<close>

text \<open>The context a node's \<open>Run\<close> is given: the caller's, or the one the group derived
  from it (\<open>group, ctx := errgroup.WithContext(ctx)\<close> shadows the parameter).\<close>

datatype ctx_ref = Caller_ctx | Group_ctx

text \<open>
  \<open>Cluster.Run\<close> starts \<open>node.Run(ctx)\<close> for every node as a task of one group and
  waits. The node processes decide when each \<open>Run\<close> returns and with what: \<open>returns\<close>
  lists (node number, result) in the order of return. The result is what \<open>Run\<close>
  returns (\<open>None\<close> while \<open>Wait\<close> blocks), the tasks started with their context, and the
  cluster after.
\<close>

definition Cluster_Run ::
  "(nat \<times> error option) list \<Rightarrow> Cluster
     \<Rightarrow> error option option \<times> (nat \<times> ctx_ref) list \<times> Cluster" where
  "Cluster_Run returns cl =
     (case ensureNodes cl of
        (ns, cl') \<Rightarrow>
          (let started = map (\<lambda>node. (Number (Config node), Group_ctx)) ns
           in (group_Wait (map fst started) returns, started, cl')))"

subsection \<open>A cluster's lifetime\<close>

text \<open>The operations of a cluster after \<open>New\<close>, each with what its collaborators do.\<close>

datatype cluster_op =
    Op_Init node_world
  | Op_Run "(nat \<times> error option) list"
  | Op_PrintNodeInfo node_world

fun apply_op :: "Cluster \<Rightarrow> cluster_op \<Rightarrow> Cluster" where
  "apply_op cl (Op_Init w) = snd (snd (Cluster_Init w cl))"
| "apply_op cl (Op_Run returns) = snd (snd (Cluster_Run returns cl))"
| "apply_op cl (Op_PrintNodeInfo w) = snd (snd (Cluster_PrintNodeInfo w cl))"

definition apply_ops :: "Cluster \<Rightarrow> cluster_op list \<Rightarrow> Cluster" where
  "apply_ops cl ops = foldl apply_op cl ops"

subsection \<open>What the cluster is expected to call\<close>

text \<open>Node \<open>n\<close> initializes: both \<open>Init\<close> and \<open>EnodeURL\<close> return no error.\<close>

definition init_ok :: "node_world \<Rightarrow> string \<Rightarrow> nat \<Rightarrow> bool" where
  "init_ok w g n = (on_Init w n g = None \<and> snd (on_EnodeURL w n) = None)"

text \<open>The calls of the first loop on the nodes \<open>ks\<close>, each initialized and asked its URL.\<close>

definition init_calls :: "string \<Rightarrow> nat list \<Rightarrow> node_call list" where
  "init_calls g ks = concat (map (\<lambda>n. [Call_Init n g, Call_EnodeURL n]) ks)"

text \<open>The calls of the second loop on the nodes \<open>ks\<close>, the first of them at index \<open>i\<close>.\<close>

fun connect_calls :: "string list \<Rightarrow> nat \<Rightarrow> nat list \<Rightarrow> node_call list" where
  "connect_calls urls i [] = []"
| "connect_calls urls i (n # ks) =
     Call_SetStaticNodes n (peer_urls urls i) # connect_calls urls (Suc i) ks"

fun connect_ok :: "node_world \<Rightarrow> string list \<Rightarrow> nat \<Rightarrow> nat list \<Rightarrow> bool" where
  "connect_ok w urls i [] = True"
| "connect_ok w urls i (n # ks) =
     (on_SetStaticNodes w n (peer_urls urls i) = None \<and> connect_ok w urls (Suc i) ks)"

text \<open>The URLs the nodes \<open>0..N-1\<close> report.\<close>

definition enode_urls :: "node_world \<Rightarrow> nat \<Rightarrow> string list" where
  "enode_urls w N = map (\<lambda>n. fst (on_EnodeURL w n)) [0..<N]"

section \<open>LoadBot (package loadbot)\<close>

subsection \<open>Go integers and float64\<close>

text \<open>Go's \<open>int\<close> and \<open>time.Duration\<close> are taken as 64-bit: arithmetic wraps around.\<close>

definition wrap64 :: "int \<Rightarrow> int" where
  "wrap64 x = (x + 2 ^ 63) mod 2 ^ 64 - 2 ^ 63"

text \<open>Go's \<open>/\<close> on integers truncates towards zero (the divisor is checked before);
  the quotient of the least integer by \<open>-1\<close> wraps around to the least integer, and the
  remainder is then zero.\<close>

definition go_quo :: "int \<Rightarrow> int \<Rightarrow> int" where
  "go_quo a b =
     (if a = - (2 ^ 63) \<and> b = - 1 then - (2 ^ 63)
      else if (a < 0) = (b < 0) then \<bar>a\<bar> div \<bar>b\<bar> else - (\<bar>a\<bar> div \<bar>b\<bar>))"

definition go_rem :: "int \<Rightarrow> int \<Rightarrow> int" where
  "go_rem a b = (if a = - (2 ^ 63) \<and> b = - 1 then 0 else a - b * go_quo a b)"

text \<open>The number of bits of \<open>n\<close> (\<open>bits.Len\<close>).\<close>

fun bit_length :: "nat \<Rightarrow> nat" where
  "bit_length n = (if n = 0 then 0 else Suc (bit_length (n div 2)))"

declare bit_length.simps [simp del]

text \<open>
  IEEE 754 binary64 keeps 53 significant bits and rounds to nearest, ties to even.
  \<open>round53 k\<close> is the natural number \<open>k\<close> so rounded (the scale does not matter to the
  rounding, so it also rounds \<open>k / 2^53\<close>, given as its numerator).
\<close>

definition round53 :: "nat \<Rightarrow> nat" where
  "round53 k =
     (if bit_length k \<le> 53 then k
      else (let s = bit_length k - 53;
                q = k div 2 ^ s;
                r = k mod 2 ^ s
            in if 2 * r > 2 ^ s \<or> (2 * r = 2 ^ s \<and> odd q) then (q + 1) * 2 ^ s else q * 2 ^ s))"

text \<open>The constant \<open>0.95\<close> as a float64 is \<open>8556839292003942 / 2^53\<close>
  (bits \<open>0x3FEE666666666666\<close>).\<close>

definition mant_095 :: nat where
  "mant_095 = 8556839292003942"

text \<open>\<open>int(float64(n) * 0.95)\<close>: the conversion of \<open>n\<close> to float64, the float64 product
  (numerator over \<open>2^53\<close>), and the truncation to an integer; the sign is kept apart,
  since rounding to nearest and truncation are symmetric.\<close>

definition int_times_095 :: "int \<Rightarrow> int" where
  "int_times_095 n = sgn n * int (round53 (round53 (nat \<bar>n\<bar>) * mant_095) div 2 ^ 53)"

subsection \<open>Configuration\<close>

definition clientCap :: int where
  "clientCap = 100"

text \<open>A client connection, as the factory hands it out.\<close>

type_synonym client = nat

text \<open>\<open>ClientFactory\<close> is a Go function; \<open>ClientFactory cfg k\<close> is what its call number \<open>k\<close>
  (from 0) returns, a pair \<open>(client, error)\<close>.\<close>

record LoadBotConfig =
  Accounts :: "env_Account list"
  Amount :: int
  TransactionsPerSecond :: int
  ClientCount :: int
  ClientFactory :: "nat \<Rightarrow> client \<times> error option"

subsection \<open>waitFor\<close>

text \<open>
  What a \<open>select\<close> on \<open>ctx.Done()\<close> and a timer observes: \<open>ctx_done_after\<close> is \<open>None\<close> when
  the context is not cancelled while the call waits, and \<open>Some (t, e)\<close> when its \<open>Done\<close>
  channel is closed \<open>t\<close> nanoseconds after the call (\<open>t \<le> 0\<close>: it already was), with
  \<open>ctx.Err() = e\<close>. When both channels are ready at once Go picks one of them;
  \<open>timer_wins_tie\<close> says which.
\<close>

record select_obs =
  ctx_done_after :: "(int \<times> error) option"
  timer_wins_tie :: bool

text \<open>\<open>waitFor(ctx, waitTime)\<close> returns the error and the time it waited.
  \<open>time.After\<close> fires at once for a duration that is zero or negative.\<close>

definition waitFor :: "select_obs \<Rightarrow> int \<Rightarrow> error option \<times> int" where
  "waitFor obs waitTime =
     (let fire = max 0 waitTime
      in case ctx_done_after obs of
           None \<Rightarrow> (None, fire)
         | Some (t, e) \<Rightarrow>
             (let done = max 0 t
              in if done < fire \<or> (done = fire \<and> \<not> timer_wins_tie obs)
                 then (Some e, done)
                 else (None, fire)))"

subsection \<open>runBot\<close>

text \<open>What one iteration of the loop of \<open>runBot\<close> observes: the three readings of the
  clock (\<open>time.Now()\<close> at the top, in \<open>time.Now().After(nextSendTime)\<close> and in
  \<open>time.Until(nextSendTime)\<close>), the error of \<open>Send()\<close> and of \<open>WaitMined\<close>, the number
  \<open>rand.Intn\<close> draws, and what the pacing \<open>waitFor\<close> observes.\<close>

record iter_obs =
  now_sent :: int
  rand_draw :: nat
  send_err :: "error option"
  mined_err :: "error option"
  now_after :: int
  now_until :: int
  pace_wait :: select_obs

text \<open>What a worker does, in order: the transfers it submits (sender, client,
  recipient, amount), the confirmations it waits for, the lines it prints and the
  calls of \<open>waitFor\<close> (the duration asked for and the time waited).\<close>

datatype bot_event =
    Ev_Send env_Account client string int
  | Ev_WaitMined
  | Ev_Printf string error
  | Ev_waitFor int int

text \<open>The run-time panics of the load bot: an integer division or remainder by zero,
  \<open>make\<close> with a negative capacity, an index out of range, and \<open>rand.Intn\<close> called with
  an argument that is not positive.\<close>

datatype panic = DivideByZero | MakeSliceCapOutOfRange | IndexOutOfRange | IntnInvalidArgument

text \<open>\<open>nextTransfer\<close>: \<open>rand.Intn(len(cfg.Accounts))\<close> panics when there is no account, and
  is below the number of accounts otherwise.\<close>

definition nextTransfer :: "LoadBotConfig \<Rightarrow> nat \<Rightarrow> panic + (string \<times> int)" where
  "nextTransfer cfg draw =
     (if length (Accounts cfg) = 0 then Inl IntnInvalidArgument
      else (let idx = draw mod length (Accounts cfg)
            in Inr (Address (Accounts cfg ! idx), Amount cfg)))"

text \<open>Where a worker stands: in its loop, returned from \<open>runBot\<close> with an error value
  (\<open>None\<close> is \<open>nil\<close>), or stopped by a panic.\<close>

datatype bot_result = Running | Returned "error option" | Panicked panic

text \<open>One iteration of the loop: \<open>Running\<close> when the loop goes on after it; with the events
  of the iteration.\<close>

definition runBot_iter ::
  "LoadBotConfig \<Rightarrow> env_Account \<Rightarrow> int \<Rightarrow> client \<Rightarrow> iter_obs
     \<Rightarrow> bot_result \<times> bot_event list" where
  "runBot_iter cfg acc sleepTime cl obs =
     (let txSentTime = now_sent obs
      in case nextTransfer cfg (rand_draw obs) of
           Inl p \<Rightarrow> (Panicked p, [])
         | Inr (recipient, val) \<Rightarrow>
             (let sent = [Ev_Send acc cl recipient val]
              in case send_err obs of
                   Some err \<Rightarrow>
                     (Returned (Some (Errorf ''Error sending transaction'' err)),
                      sent @ (if err \<noteq> Canceled
                              then [Ev_Printf ''Error sending transaction'' err] else []))
                 | None \<Rightarrow>
                     (case mined_err obs of
                        Some err \<Rightarrow>
                          (Returned (Some (Errorf ''Error waitin for tx'' err)),
                           sent @ [Ev_WaitMined] @
                           (if err \<noteq> Canceled then [Ev_Printf ''Error waiting for tx'' err] else []))
                      | None \<Rightarrow>
                          (let nextSendTime = txSentTime + sleepTime
                           in if now_after obs > nextSendTime
                              then (Running, sent @ [Ev_WaitMined])
                              else (case waitFor (pace_wait obs) (nextSendTime - now_until obs) of
                                      (err, waited) \<Rightarrow>
                                        (if err \<noteq> None then Returned err else Running,
                                         sent @ [Ev_WaitMined,
                                                 Ev_waitFor (nextSendTime - now_until obs) waited]))))))"

text \<open>The loop \<open>for { ... }\<close> of \<open>runBot\<close> runs for as long as there are observations:
  \<open>Running\<close> says that it has neither returned nor panicked by the end of them.\<close>

fun runBot ::
  "LoadBotConfig \<Rightarrow> env_Account \<Rightarrow> int \<Rightarrow> client \<Rightarrow> iter_obs list
     \<Rightarrow> bot_result \<times> bot_event list" where
  "runBot cfg acc sleepTime cl [] = (Running, [])"
| "runBot cfg acc sleepTime cl (obs # rest) =
     (case runBot_iter cfg acc sleepTime cl obs of
        (Running, evs) \<Rightarrow>
          (case runBot cfg acc sleepTime cl rest of (r, evs') \<Rightarrow> (r, evs @ evs'))
      | (Returned r, evs) \<Rightarrow> (Returned r, evs)
      | (Panicked p, evs) \<Rightarrow> (Panicked p, evs))"

subsection \<open>Start\<close>

text \<open>How a call of \<open>Start\<close> ends: it panics, returns an error value (\<open>None\<close> is \<open>nil\<close>),
  or is still blocked in \<open>group.Wait()\<close>.\<close>

datatype start_result = Panics panic | Returns "error option" | Blocks

text \<open>\<open>for i := 0; i < clientCount; i++ { client, err := cfg.ClientFactory(); ... }\<close>\<close>

function dial_clients ::
  "(nat \<Rightarrow> client \<times> error option) \<Rightarrow> int \<Rightarrow> int \<Rightarrow> client list \<Rightarrow> error option \<times> client list" where
  "dial_clients factory clientCount i clients =
     (if i < clientCount
      then (case factory (length clients) of
              (cl, err) \<Rightarrow>
                (if err \<noteq> None then (err, clients)
                 else dial_clients factory clientCount (i + 1) (clients @ [cl])))
      else (None, clients))"
  by pat_completeness auto
termination
  by (relation "measure (\<lambda>(factory, clientCount, i, clients). nat (clientCount - i))") auto

declare dial_clients.simps [simp del]

text \<open>\<open>delay\<close> in nanoseconds, for \<open>A = len(cfg.Accounts)\<close> and a rate that is not zero:
  \<open>time.Duration(int(float64(A*1000/TPS)*0.95)) * time.Millisecond\<close>.\<close>

definition pacing_delay :: "int \<Rightarrow> int \<Rightarrow> int" where
  "pacing_delay A tps = wrap64 (int_times_095 (go_quo (wrap64 (A * 1000)) tps) * 1000000)"

text \<open>The arguments of one \<open>runBot\<close> task.\<close>

record worker =
  w_acc :: env_Account
  w_sleepTime :: int
  w_client :: client

text \<open>What the launch loop does, in order: its calls of \<open>waitFor\<close> (the duration asked
  for and the time waited) and its calls of \<open>group.Go\<close> (the worker started).\<close>

datatype launch_event =
    Lv_waitFor int int
  | Lv_Go worker

text \<open>How the launch loop ends: every worker is started, or it panics, or it returns
  the error of \<open>waitFor\<close>.\<close>

datatype launch_result = Launched | Launch_panics panic | Launch_returns "error option"

text \<open>The loop \<open>for i, acc := range cfg.Accounts\<close>: the accounts still to visit, the index
  \<open>i\<close> of the first of them, the workers started so far and what the loop did so far.
  \<open>waits i\<close> is what the \<open>waitFor\<close> of iteration \<open>i\<close> observes.\<close>

fun launch_workers ::
  "(nat \<Rightarrow> select_obs) \<Rightarrow> client list \<Rightarrow> int \<Rightarrow> int \<Rightarrow> int \<Rightarrow> env_Account list \<Rightarrow> nat
     \<Rightarrow> worker list \<Rightarrow> launch_event list \<Rightarrow> launch_result \<times> worker list \<times> launch_event list" where
  "launch_workers waits clients clientCount startDelay delay [] i ws evs = (Launched, ws, evs)"
| "launch_workers waits clients clientCount startDelay delay (acc # rest) i ws evs =
     (if clientCount = 0 then (Launch_panics DivideByZero, ws, evs)
      else (let idx = go_rem (int i) clientCount
            in if idx < 0 \<or> int (length clients) \<le> idx then (Launch_panics IndexOutOfRange, ws, evs)
               else (let cl = clients ! nat idx
                     in case waitFor (waits i) startDelay of
                          (err, waited) \<Rightarrow>
                            (if err \<noteq> None
                             then (Launch_returns err, ws, evs @ [Lv_waitFor startDelay waited])
                             else (let w = \<lparr>w_acc = acc, w_sleepTime = delay, w_client = cl\<rparr>
                                   in launch_workers waits clients clientCount startDelay delay rest
                                        (Suc i) (ws @ [w])
                                        (evs @ [Lv_waitFor startDelay waited, Lv_Go w]))))))"

text \<open>What the collaborators of \<open>Start\<close> do: what each \<open>waitFor\<close> of the launch loop
  observes, what each worker observes iteration by iteration, and the order in which
  the workers that end (by a return or a panic) do so.\<close>

record start_world =
  launch_wait :: "nat \<Rightarrow> select_obs"
  worker_obs :: "nat \<Rightarrow> iter_obs list"
  return_order :: "nat list"

text \<open>Where worker \<open>i\<close> of \<open>ws\<close> stands at the end of its observations.\<close>

definition worker_result ::
  "start_world \<Rightarrow> LoadBotConfig \<Rightarrow> worker list \<Rightarrow> nat \<Rightarrow> bot_result" where
  "worker_result world cfg ws i =
     (if i < length ws
      then fst (runBot cfg (w_acc (ws ! i)) (w_sleepTime (ws ! i)) (w_client (ws ! i))
                  (worker_obs world i))
      else Running)"

text \<open>The returns of the workers, and their panics, in the order of the world.\<close>

definition worker_returns ::
  "start_world \<Rightarrow> LoadBotConfig \<Rightarrow> worker list \<Rightarrow> (nat \<times> error option) list" where
  "worker_returns world cfg ws =
     concat (map (\<lambda>i. case worker_result world cfg ws i of Returned r \<Rightarrow> [(i, r)] | _ \<Rightarrow> [])
               (return_order world))"

definition worker_panics :: "start_world \<Rightarrow> LoadBotConfig \<Rightarrow> worker list \<Rightarrow> panic list" where
  "worker_panics world cfg ws =
     concat (map (\<lambda>i. case worker_result world cfg ws i of Panicked p \<Rightarrow> [p] | _ \<Rightarrow> [])
               (return_order world))"

text \<open>The first part of \<open>Start\<close>: "use no more than clientCap clients", then the pool.
  \<open>make([]bind.ContractBackend, 0, clientCount)\<close> panics on a negative capacity.\<close>

definition capped_clientCount :: "LoadBotConfig \<Rightarrow> int" where
  "capped_clientCount cfg = (if ClientCount cfg > clientCap then clientCap else ClientCount cfg)"

definition build_clients :: "LoadBotConfig \<Rightarrow> panic + (error option \<times> client list)" where
  "build_clients cfg =
     (let clientCount = capped_clientCount cfg
      in if clientCount < 0 then Inl MakeSliceCapOutOfRange
         else Inr (dial_clients (ClientFactory cfg) clientCount 0 []))"

text \<open>\<open>Start\<close>: how it ends, the workers it started, and what its launch loop did. A panic
  of a worker is not recovered, so it ends the program and with it \<open>Start\<close>.\<close>

definition Start ::
  "start_world \<Rightarrow> LoadBotConfig \<Rightarrow> start_result \<times> worker list \<times> launch_event list" where
  "Start world cfg =
     (case build_clients cfg of
        Inl p \<Rightarrow> (Panics p, [], [])
      | Inr (err, clients) \<Rightarrow>
          (if err \<noteq> None then (Returns err, [], [])
           else if TransactionsPerSecond cfg = 0 then (Panics DivideByZero, [], [])
           else (let A = int (length (Accounts cfg));
                     delay = pacing_delay A (TransactionsPerSecond cfg)
                 in if A = 0 then (Panics DivideByZero, [], [])
                    else (let startDelay = go_quo delay A
                          in case launch_workers (launch_wait world) clients (capped_clientCount cfg)
                                    startDelay delay (Accounts cfg) 0 [] [] of
                               (Launch_panics p, ws, evs) \<Rightarrow> (Panics p, ws, evs)
                             | (Launch_returns e, ws, evs) \<Rightarrow> (Returns e, ws, evs)
                             | (Launched, ws, evs) \<Rightarrow>
                                 (case worker_panics world cfg ws of
                                    p # ps \<Rightarrow> (Panics p, ws, evs)
                                  | [] \<Rightarrow>
                                      (case group_Wait [0..<length ws] (worker_returns world cfg ws) of
                                         None \<Rightarrow> (Blocks, ws, evs)
                                       | Some r \<Rightarrow> (Returns r, ws, evs)))))))"

subsection \<open>What the load bot is expected to do\<close>

text \<open>The workers \<open>Start\<close> is to start for the accounts \<open>accs\<close>, the first of them at index \<open>i\<close>:
  account \<open>i\<close> with the client at \<open>i % clientCount\<close>.\<close>

fun assigned :: "client list \<Rightarrow> int \<Rightarrow> int \<Rightarrow> env_Account list \<Rightarrow> nat \<Rightarrow> worker list" where
  "assigned clients clientCount delay [] i = []"
| "assigned clients clientCount delay (acc # rest) i =
     \<lparr>w_acc = acc, w_sleepTime = delay, w_client = clients ! nat (go_rem (int i) clientCount)\<rparr>
       # assigned clients clientCount delay rest (Suc i)"

text \<open>What the launch loop is to do for the workers \<open>ws\<close> it starts, the first of them
  at index \<open>i\<close>: wait for the stagger \<open>sd\<close>, then start the worker.\<close>

fun launch_trace :: "(nat \<Rightarrow> select_obs) \<Rightarrow> int \<Rightarrow> worker list \<Rightarrow> nat \<Rightarrow> launch_event list" where
  "launch_trace waits sd [] i = []"
| "launch_trace waits sd (w # ws) i =
     Lv_waitFor sd (snd (waitFor (waits i) sd)) # Lv_Go w # launch_trace waits sd ws (Suc i)"

text \<open>The only error a collaborator reports is the cancellation of the context
  (\<open>context.Canceled\<close>, possibly wrapped).\<close>

definition cancel_or_nil :: "error option \<Rightarrow> bool" where
  "cancel_or_nil r = (case r of None \<Rightarrow> True | Some e \<Rightarrow> is_Canceled e)"

definition select_cancel_only :: "select_obs \<Rightarrow> bool" where
  "select_cancel_only s = (case ctx_done_after s of None \<Rightarrow> True | Some (t, e) \<Rightarrow> is_Canceled e)"

definition iter_cancel_only :: "iter_obs \<Rightarrow> bool" where
  "iter_cancel_only obs =
     (cancel_or_nil (send_err obs) \<and> cancel_or_nil (mined_err obs) \<and> select_cancel_only (pace_wait obs))"

text \<open>The transactor of a worker carries the context (\<open>transactor.Context = ctx\<close>). An
  iteration honours a cancellation at time \<open>T\<close> when cancellation is the only error it
  observes and, if it begins at \<open>T\<close> or later, its \<open>Send()\<close> fails.\<close>

definition honours_cancel :: "int \<Rightarrow> iter_obs \<Rightarrow> bool" where
  "honours_cancel T obs = (iter_cancel_only obs \<and> (T \<le> now_sent obs \<longrightarrow> send_err obs \<noteq> None))"

text \<open>An iteration that observes neither an error nor a cancellation.\<close>

definition undisturbed :: "iter_obs \<Rightarrow> bool" where
  "undisturbed obs =
     (send_err obs = None \<and> mined_err obs = None \<and> ctx_done_after (pace_wait obs) = None)"

section \<open>Example scenarios\<close>

text \<open>The scenario of the spec: four validators.\<close>

definition ex_env :: env_Environment where
  "ex_env = \<lparr>ValidatorAccounts =
               [\<lparr>Address = ''0xa1'', PrivateKey = ''k1''\<rparr>, \<lparr>Address = ''0xa2'', PrivateKey = ''k2''\<rparr>,
                \<lparr>Address = ''0xa3'', PrivateKey = ''k3''\<rparr>, \<lparr>Address = ''0xa4'', PrivateKey = ''k4''\<rparr>],
             ValidatorDatadir = (\<lambda>i. ''validator''),
             ChainID = 1101,
             GenesisPath = ''genesis.json''\<rparr>"

definition ex_url :: "nat \<Rightarrow> string" where
  "ex_url n = (if n = 0 then ''enode://a'' else if n = 1 then ''enode://b''
               else if n = 2 then ''enode://c'' else ''enode://d'')"

text \<open>Every node initializes and accepts its peers.\<close>

definition ex_nodes_ok :: node_world where
  "ex_nodes_ok = \<lparr>on_Init = (\<lambda>n g. None),
                  on_EnodeURL = (\<lambda>n. (ex_url n, None)),
                  on_SetStaticNodes = (\<lambda>n us. None)\<rparr>"

text \<open>\<open>geth init\<close> fails on node 2.\<close>

definition ex_init_fails :: node_world where
  "ex_init_fails = \<lparr>on_Init = (\<lambda>n g. if n = 2 then Some (Failure ''geth init'') else None),
                    on_EnodeURL = (\<lambda>n. (ex_url n, None)),
                    on_SetStaticNodes = (\<lambda>n us. None)\<rparr>"

text \<open>Node 1 refuses its static peers.\<close>

definition ex_peering_fails :: node_world where
  "ex_peering_fails = \<lparr>on_Init = (\<lambda>n g. None),
                       on_EnodeURL = (\<lambda>n. (ex_url n, None)),
                       on_SetStaticNodes = (\<lambda>n us. if n = 1 then Some (Failure ''static-nodes.json'') else None)\<rparr>"

text \<open>Node 1 shuts down cleanly, then the process of node 2 is killed; nodes 0 and 3
  return after that.\<close>

definition ex_returns :: "(nat \<times> error option) list" where
  "ex_returns = [(1, None), (2, Some (Failure ''killed'')), (0, Some (Failure ''late'')), (3, None)]"

text \<open>Three accounts at 5 transactions per second, over two clients.\<close>

definition ex_accounts :: "env_Account list" where
  "ex_accounts = [\<lparr>Address = ''0xd1'', PrivateKey = ''s1''\<rparr>, \<lparr>Address = ''0xd2'', PrivateKey = ''s2''\<rparr>,
                  \<lparr>Address = ''0xd3'', PrivateKey = ''s3''\<rparr>]"

definition ex_cfg :: LoadBotConfig where
  "ex_cfg = \<lparr>Accounts = ex_accounts, Amount = 10000000, TransactionsPerSecond = 5,
             ClientCount = 2, ClientFactory = (\<lambda>k. (k + 7, None))\<rparr>"

definition ex_acc :: env_Account where
  "ex_acc = \<lparr>Address = ''0xd1'', PrivateKey = ''s1''\<rparr>"

text \<open>The timer of a \<open>waitFor\<close> fires; or the context is cancelled 5 microseconds into it.\<close>

definition timer_fires :: select_obs where
  "timer_fires = \<lparr>ctx_done_after = None, timer_wins_tie = True\<rparr>"

definition ctx_cancelled :: select_obs where
  "ctx_cancelled = \<lparr>ctx_done_after = Some (5000, Canceled), timer_wins_tie = True\<rparr>"

text \<open>An iteration confirmed after 100 ms, one confirmed after 600 ms, and one in whose
  pacing sleep the context is cancelled.\<close>

definition ex_iter_on_time :: iter_obs where
  "ex_iter_on_time = \<lparr>now_sent = 0, rand_draw = 4, send_err = None, mined_err = None,
                      now_after = 100000000, now_until = 100000100, pace_wait = timer_fires\<rparr>"

definition ex_iter_late :: iter_obs where
  "ex_iter_late = \<lparr>now_sent = 0, rand_draw = 4, send_err = None, mined_err = None,
                   now_after = 600000000, now_until = 600000100, pace_wait = timer_fires\<rparr>"

definition ex_iter_cancelled :: iter_obs where
  "ex_iter_cancelled = \<lparr>now_sent = 0, rand_draw = 4, send_err = None, mined_err = None,
                        now_after = 100000000, now_until = 100000100, pace_wait = ctx_cancelled\<rparr>"

text \<open>Every worker is started, runs two iterations and is cancelled in the second.\<close>

definition ex_world :: start_world where
  "ex_world = \<lparr>launch_wait = (\<lambda>i. timer_fires),
               worker_obs = (\<lambda>i. [ex_iter_on_time, ex_iter_cancelled]),
               return_order = [1, 0, 2]\<rparr>"

text \<open>The context is cancelled 570 ms after a worker's first send, at the very moment
  the timer of its pacing sleep fires, and the timer wins: the worker starts another
  iteration, whose \<open>Send()\<close> fails with the cancellation.\<close>

definition ex_iter_tie :: iter_obs where
  "ex_iter_tie = \<lparr>now_sent = 0, rand_draw = 4, send_err = None, mined_err = None,
                  now_after = 100000000, now_until = 100000100,
                  pace_wait = \<lparr>ctx_done_after = Some (469999900, Canceled), timer_wins_tie = True\<rparr>\<rparr>"

definition ex_iter_send_cancelled :: iter_obs where
  "ex_iter_send_cancelled =
     \<lparr>now_sent = 570000000, rand_draw = 5, send_err = Some Canceled, mined_err = None,
      now_after = 570000000, now_until = 570000000, pace_wait = timer_fires\<rparr>"

definition ex_world_cancel :: start_world where
  "ex_world_cancel = \<lparr>launch_wait = (\<lambda>i. timer_fires),
                      worker_obs = (\<lambda>i. [ex_iter_tie, ex_iter_send_cancelled]),
                      return_order = [2, 0, 1]\<rparr>"

text \<open>What \<open>Start\<close> is to do for the three accounts at 5 transactions per second, with
  two clients: a delay of 570 ms, a stagger of 190 ms, the clients taken in turn.\<close>

definition ex_w1 :: worker where
  "ex_w1 = \<lparr>w_acc = \<lparr>Address = ''0xd1'', PrivateKey = ''s1''\<rparr>, w_sleepTime = 570000000, w_client = 7\<rparr>"

definition ex_w2 :: worker where
  "ex_w2 = \<lparr>w_acc = \<lparr>Address = ''0xd2'', PrivateKey = ''s2''\<rparr>, w_sleepTime = 570000000, w_client = 8\<rparr>"

definition ex_w3 :: worker where
  "ex_w3 = \<lparr>w_acc = \<lparr>Address = ''0xd3'', PrivateKey = ''s3''\<rparr>, w_sleepTime = 570000000, w_client = 7\<rparr>"

definition ex_launch :: "launch_event list" where
  "ex_launch = [Lv_waitFor 190000000 190000000, Lv_Go ex_w1,
                Lv_waitFor 190000000 190000000, Lv_Go ex_w2,
                Lv_waitFor 190000000 190000000, Lv_Go ex_w3]"

section \<open>Properties of the cluster\<close>

subsection \<open>The node list and the two loops of Init\<close>

lemma length_buildNodes: "length (buildNodes cl i vs) = length vs"
  by (induction vs arbitrary: i) auto

lemma Number_buildNodes: "map (\<lambda>node. Number (Config node)) (buildNodes cl i vs) = [i..<i + length vs]"
  by (induction vs arbitrary: i) (auto simp: mkNode_def upt_rec)

lemma buildNodes_nodes_update: "buildNodes (cl\<lparr>nodes := x\<rparr>) i vs = buildNodes cl i vs"
  by (induction vs arbitrary: i) (auto simp: mkNode_def)

lemma Init_nodes_all_ok:
  "\<forall>node\<in>set ns. init_ok w g (num node) \<Longrightarrow> i + length ns \<le> length urls \<Longrightarrow>
   Init_nodes w g ns i urls calls =
     (None, take i urls @ map (\<lambda>node. fst (on_EnodeURL w (num node))) ns @ drop (i + length ns) urls,
      calls @ init_calls g (map num ns))"
proof (induction ns arbitrary: i urls calls)
  case Nil
  then show ?case by (simp add: init_calls_def)
next
  case (Cons node rest)
  obtain u where u: "on_EnodeURL w (num node) = (u, None)"
    using Cons.prems(1) by (cases "on_EnodeURL w (num node)") (auto simp: init_ok_def)
  have i: "i < length urls" using Cons.prems(2) by simp
  have "take (Suc i) (urls[i := u]) = take i urls @ [u]"
    using i by (simp add: take_Suc_conv_app_nth)
  moreover have "drop (Suc i + length rest) (urls[i := u]) = drop (Suc i + length rest) urls"
    by simp
  ultimately show ?case
    using Cons.prems Cons.IH[of "Suc i" "urls[i := u]"] u
    by (simp add: Node_Init_def Node_EnodeURL_def init_ok_def init_calls_def)
qed

lemma init_calls_Cons: "init_calls g (n # ks) = Call_Init n g # Call_EnodeURL n # init_calls g ks"
  by (simp add: init_calls_def)

lemma Init_nodes_fail:
  "\<forall>node\<in>set pre. init_ok w g (num node) \<Longrightarrow> \<not> init_ok w g (num node) \<Longrightarrow>
   (case Init_nodes w g (pre @ node # post) i urls calls of (err, urls', calls') \<Rightarrow> (err, calls')) =
     (case on_Init w (num node) g of
        Some e \<Rightarrow> (Some e, calls @ init_calls g (map num pre) @ [Call_Init (num node) g])
      | None \<Rightarrow> (snd (on_EnodeURL w (num node)),
                 calls @ init_calls g (map num pre) @ [Call_Init (num node) g, Call_EnodeURL (num node)]))"
proof (induction pre arbitrary: i urls calls)
  case Nil
  then show ?case
    by (cases "on_EnodeURL w (num node)")
       (auto simp: Node_Init_def Node_EnodeURL_def init_ok_def init_calls_def split: option.splits)
next
  case (Cons p pre)
  obtain u where u: "on_EnodeURL w (num p) = (u, None)"
    using Cons.prems(1) by (cases "on_EnodeURL w (num p)") (auto simp: init_ok_def)
  from Cons.prems have "on_Init w (num p) g = None" by (simp add: init_ok_def)
  then show ?case
    using Cons.prems Cons.IH[of "Suc i" "urls[i := u]" "calls @ [Call_Init (num p) g, Call_EnodeURL (num p)]"] u
    by (simp add: Node_Init_def Node_EnodeURL_def init_calls_Cons split: option.splits)
qed

lemma connect_calls_append: "connect_calls urls i (ks @ ks') = connect_calls urls i ks @ connect_calls urls (i + length ks) ks'"
  by (induction ks arbitrary: i) auto

lemma Connect_nodes_all_ok:
  "connect_ok w urls i (map num ns) \<Longrightarrow>
   Connect_nodes w ns i urls calls = (None, calls @ connect_calls urls i (map num ns))"
  by (induction ns arbitrary: i calls) (auto simp: Node_SetStaticNodes_def Let_def)

lemma Connect_nodes_fail:
  "connect_ok w urls i (map num pre) \<Longrightarrow>
   on_SetStaticNodes w (num node) (peer_urls urls (i + length pre)) = Some e \<Longrightarrow>
   Connect_nodes w (pre @ node # post) i urls calls =
     (Some e, calls @ connect_calls urls i (map num (pre @ [node])))"
  by (induction pre arbitrary: i calls) (auto simp: Node_SetStaticNodes_def Let_def)

lemma apply_op_ensure: "apply_op cl op = snd (ensureNodes cl)"
  by (cases op) (auto simp: Cluster_Init_def Cluster_Run_def Cluster_PrintNodeInfo_def Let_def split: prod.splits option.splits)

lemma ensureNodes_twice: "ensureNodes (snd (ensureNodes cl)) = ensureNodes cl"
  by (auto simp: ensureNodes_def Let_def split: option.splits)

lemma apply_ops_Cons: "apply_ops cl (op # ops) = snd (ensureNodes cl)"
proof -
  have "foldl apply_op (snd (ensureNodes cl)) ops = snd (ensureNodes cl)"
    by (induction ops) (auto simp: apply_op_ensure ensureNodes_twice)
  then show ?thesis by (simp add: apply_ops_def apply_op_ensure)
qed

lemma ensureNodes_New: "ensureNodes (New e g) =
   (buildNodes (New e g) 0 (ValidatorAccounts e), (New e g)\<lparr>nodes := Some (buildNodes (New e g) 0 (ValidatorAccounts e))\<rparr>)"
  by (simp add: ensureNodes_def New_def Let_def)

lemma reachable:
  "apply_ops (New e g) ops = New e g \<or>
   apply_ops (New e g) ops = (New e g)\<lparr>nodes := Some (buildNodes (New e g) 0 (ValidatorAccounts e))\<rparr>"
  by (cases ops) (simp_all add: apply_ops_Cons ensureNodes_New, simp add: apply_ops_def)

lemma reachable_ensureNodes:
  "fst (ensureNodes (apply_ops (New e g) ops)) = buildNodes (New e g) 0 (ValidatorAccounts e)"
  "env (snd (ensureNodes (apply_ops (New e g) ops))) = e"
  using reachable[of e g ops] by (auto simp: ensureNodes_New) (auto simp: ensureNodes_def New_def)

lemma Init_nodes_None:
  "Init_nodes w g ns i urls calls = (None, urls', calls') \<Longrightarrow> i + length ns \<le> length urls \<Longrightarrow>
   urls' = take i urls @ map (\<lambda>node. fst (on_EnodeURL w (num node))) ns @ drop (i + length ns) urls \<and>
   calls' = calls @ init_calls g (map num ns)"
proof (induction ns arbitrary: i urls calls)
  case Nil
  then show ?case by (simp add: init_calls_def)
next
  case (Cons node rest)
  obtain u err where u: "on_EnodeURL w (num node) = (u, err)" by (cases "on_EnodeURL w (num node)")
  have i: "i < length urls" using Cons.prems(2) by simp
  have t: "take (Suc i) (urls[i := u]) = take i urls @ [u]"
    using i by (simp add: take_Suc_conv_app_nth)
  from Cons.prems(1) u have ok: "on_Init w (num node) g = None" "err = None"
    and rest: "Init_nodes w g rest (Suc i) (urls[i := u]) (calls @ [Call_Init (num node) g, Call_EnodeURL (num node)]) = (None, urls', calls')"
    by (auto simp: Node_Init_def Node_EnodeURL_def Let_def split: option.splits)
  from Cons.IH[OF rest] Cons.prems(2) t u show ?case
    by (simp add: init_calls_Cons)
qed

lemma Connect_nodes_None:
  "Connect_nodes w ns i urls calls = (None, calls') \<Longrightarrow>
   calls' = calls @ connect_calls urls i (map num ns)"
proof (induction ns arbitrary: i calls)
  case Nil
  then show ?case by simp
next
  case (Cons node rest)
  from Cons.prems have "Connect_nodes w rest (Suc i) urls (calls @ [Call_SetStaticNodes (num node) (peer_urls urls i)]) = (None, calls')"
    by (auto simp: Node_SetStaticNodes_def Let_def split: option.splits)
  from Cons.IH[OF this] show ?case by simp
qed

lemma static_peers_append: "static_peers (xs @ ys) n = static_peers xs n @ static_peers ys n"
  by (simp add: static_peers_def)

lemma static_peers_init_calls: "static_peers (init_calls g ks) n = []"
  by (induction ks) (auto simp: init_calls_def static_peers_def)

lemma static_peers_connect_calls:
  "static_peers (connect_calls urls a [a..<a + k]) i = (if a \<le> i \<and> i < a + k then [peer_urls urls i] else [])"
proof (induction k arbitrary: a)
  case 0
  then show ?case by (simp add: static_peers_def)
next
  case (Suc k)
  have "[a..<a + Suc k] = a # [Suc a..<Suc a + k]" by (simp add: upt_rec)
  then show ?case using Suc[of "Suc a"] by (auto simp: static_peers_def)
qed

lemma upt_without: "i < N \<Longrightarrow> filter (\<lambda>n. n \<noteq> i) [0..<N] = [0..<i] @ [Suc i..<N]"
proof -
  assume "i < N"
  then have "[0..<N] = [0..<i] @ i # [Suc i..<N]"
    by (metis less_imp_le_nat upt_add_eq_append upt_conv_Cons zero_le le_add_diff_inverse)
  moreover have "filter (\<lambda>n. n \<noteq> i) [0..<i] = [0..<i]" by (auto intro: filter_True)
  moreover have "filter (\<lambda>n. n \<noteq> i) [Suc i..<N] = [Suc i..<N]" by (auto intro: filter_True)
  ultimately show ?thesis by simp
qed

lemma peer_urls_enode_urls:
  "i < N \<Longrightarrow> peer_urls (enode_urls w N) i = map (\<lambda>n. fst (on_EnodeURL w n)) (filter (\<lambda>n. n \<noteq> i) [0..<N])"
  by (simp add: peer_urls_def enode_urls_def upt_without take_map drop_map)

lemma length_peer_urls: "i < length urls \<Longrightarrow> length (peer_urls urls i) = length urls - 1"
  by (simp add: peer_urls_def)

lemma own_not_in_peer_urls:
  "i < length urls \<Longrightarrow> distinct urls \<Longrightarrow> urls ! i \<notin> set (peer_urls urls i)"
proof -
  assume i: "i < length urls" and d: "distinct urls"
  have "urls = take i urls @ urls ! i # drop (Suc i) urls" using i by (simp add: id_take_nth_drop)
  with d have "distinct (take i urls @ urls ! i # drop (Suc i) urls)" by simp
  then show ?thesis by (auto simp: peer_urls_def)
qed

lemma Cluster_Init_success:
  assumes "fst (Cluster_Init w (apply_ops (New e g) ops)) = None"
  shows "fst (snd (Cluster_Init w (apply_ops (New e g) ops))) =
           init_calls (GenesisPath e) [0..<length (ValidatorAccounts e)] @
           connect_calls (enode_urls w (length (ValidatorAccounts e))) 0 [0..<length (ValidatorAccounts e)]"
proof -
  let ?cl = "apply_ops (New e g) ops"
  let ?ns = "buildNodes (New e g) 0 (ValidatorAccounts e)"
  let ?N = "length (ValidatorAccounts e)"
  obtain cl' where en: "ensureNodes ?cl = (?ns, cl')" and env: "env cl' = e"
    using reachable_ensureNodes[of e g ops] by (cases "ensureNodes ?cl") auto
  have nums: "map num ?ns = [0..<?N]" using Number_buildNodes[of "New e g" 0] by simp
  have len: "length ?ns = ?N" by (simp add: length_buildNodes)
  obtain err urls calls where i1: "Init_nodes w (GenesisPath e) ?ns 0 (replicate ?N []) [] = (err, urls, calls)"
    by (cases "Init_nodes w (GenesisPath e) ?ns 0 (replicate ?N []) []") auto
  have err: "err = None" using assms en env i1 len by (cases err) (auto simp: Cluster_Init_def)
  have "map (\<lambda>node. fst (on_EnodeURL w (num node))) ?ns = map (\<lambda>n. fst (on_EnodeURL w n)) (map num ?ns)"
    by (simp add: comp_def)
  then have u: "urls = enode_urls w ?N" and c: "calls = init_calls (GenesisPath e) [0..<?N]"
    using Init_nodes_None[OF i1[unfolded err]] len nums by (simp_all add: enode_urls_def)
  obtain err2 calls2 where i2: "Connect_nodes w ?ns 0 urls calls = (err2, calls2)"
    by (cases "Connect_nodes w ?ns 0 urls calls") auto
  have err2: "err2 = None" using assms en env i1 i2 len err by (auto simp: Cluster_Init_def)
  from Connect_nodes_None[OF i2[unfolded err2]] have "calls2 = calls @ connect_calls urls 0 [0..<?N]"
    using nums by simp
  then show ?thesis using en env i1 i2 len err u c by (simp add: Cluster_Init_def)
qed

lemma connect_ok_upt:
  "connect_ok w urls a [a..<a + k] = (\<forall>j. a \<le> j \<and> j < a + k \<longrightarrow> on_SetStaticNodes w j (peer_urls urls j) = None)"
proof (induction k arbitrary: a)
  case 0
  then show ?case by auto
next
  case (Suc k)
  have eq: "[a..<a + Suc k] = a # [Suc a..<Suc a + k]" by (simp add: upt_rec)
  have "connect_ok w urls a [a..<a + Suc k] =
      (on_SetStaticNodes w a (peer_urls urls a) = None \<and> connect_ok w urls (Suc a) [Suc a..<Suc a + k])"
    by (simp only: eq connect_ok.simps)
  also have "\<dots> = (on_SetStaticNodes w a (peer_urls urls a) = None \<and>
      (\<forall>j. Suc a \<le> j \<and> j < Suc a + k \<longrightarrow> on_SetStaticNodes w j (peer_urls urls j) = None))"
    by (simp only: Suc)
  also have "\<dots> = (\<forall>j. a \<le> j \<and> j < a + Suc k \<longrightarrow> on_SetStaticNodes w j (peer_urls urls j) = None)"
  proof (intro iffI allI impI conjI)
    fix j
    assume h: "on_SetStaticNodes w a (peer_urls urls a) = None \<and>
      (\<forall>j. Suc a \<le> j \<and> j < Suc a + k \<longrightarrow> on_SetStaticNodes w j (peer_urls urls j) = None)"
      and j: "a \<le> j \<and> j < a + Suc k"
    show "on_SetStaticNodes w j (peer_urls urls j) = None"
    proof (cases "j = a")
      case True
      then show ?thesis using h by simp
    next
      case False
      then have "Suc a \<le> j \<and> j < Suc a + k" using j by simp
      then show ?thesis using h by blast
    qed
  next
    assume "\<forall>j. a \<le> j \<and> j < a + Suc k \<longrightarrow> on_SetStaticNodes w j (peer_urls urls j) = None"
    then show "on_SetStaticNodes w a (peer_urls urls a) = None" by simp
  next
    fix j
    assume "\<forall>j. a \<le> j \<and> j < a + Suc k \<longrightarrow> on_SetStaticNodes w j (peer_urls urls j) = None"
      and "Suc a \<le> j \<and> j < Suc a + k"
    then show "on_SetStaticNodes w j (peer_urls urls j) = None" by simp
  qed
  finally show ?case .
qed

lemma buildNodes_split:
  assumes "k < length vs"
  shows "buildNodes cl 0 vs = take k (buildNodes cl 0 vs) @ (buildNodes cl 0 vs ! k) # drop (Suc k) (buildNodes cl 0 vs)"
    and "map num (take k (buildNodes cl 0 vs)) = [0..<k]"
    and "num (buildNodes cl 0 vs ! k) = k"
    and "length (take k (buildNodes cl 0 vs)) = k"
proof -
  have l: "length (buildNodes cl 0 vs) = length vs" by (rule length_buildNodes)
  show "buildNodes cl 0 vs = take k (buildNodes cl 0 vs) @ (buildNodes cl 0 vs ! k) # drop (Suc k) (buildNodes cl 0 vs)"
    using assms l by (simp add: id_take_nth_drop)
  have n: "map num (buildNodes cl 0 vs) = [0..<length vs]" using Number_buildNodes[of cl 0 vs] by simp
  have "map num (take k (buildNodes cl 0 vs)) = take k (map num (buildNodes cl 0 vs))" by (simp add: take_map)
  then show "map num (take k (buildNodes cl 0 vs)) = [0..<k]" using n assms by (simp add: take_upt)
  have "num (buildNodes cl 0 vs ! k) = map num (buildNodes cl 0 vs) ! k" using assms l by simp
  then show "num (buildNodes cl 0 vs ! k) = k" using n assms by simp
  show "length (take k (buildNodes cl 0 vs)) = k" using assms l by simp
qed

lemma Cluster_Init_unfold:
  "Cluster_Init w (apply_ops (New e g) ops) =
     (case Init_nodes w (GenesisPath e) (buildNodes (New e g) 0 (ValidatorAccounts e)) 0
              (replicate (length (ValidatorAccounts e)) []) [] of
        (Some err, enodeUrls, calls) \<Rightarrow> (Some err, calls, snd (ensureNodes (apply_ops (New e g) ops)))
      | (None, enodeUrls, calls) \<Rightarrow>
          (case Connect_nodes w (buildNodes (New e g) 0 (ValidatorAccounts e)) 0 enodeUrls calls of
             (err, calls') \<Rightarrow> (err, calls', snd (ensureNodes (apply_ops (New e g) ops)))))"
  using reachable_ensureNodes[of e g ops]
  by (cases "ensureNodes (apply_ops (New e g) ops)")
     (auto simp: Cluster_Init_def length_buildNodes split: prod.splits option.splits)

lemma Cluster_Init_init_fails:
  assumes k: "k < length (ValidatorAccounts e)"
    and before: "\<forall>j<k. init_ok w (GenesisPath e) j"
    and fails: "\<not> init_ok w (GenesisPath e) k"
  shows "fst (Cluster_Init w (apply_ops (New e g) ops)) =
           (case on_Init w k (GenesisPath e) of Some err \<Rightarrow> Some err | None \<Rightarrow> snd (on_EnodeURL w k))"
    and "fst (snd (Cluster_Init w (apply_ops (New e g) ops))) =
           init_calls (GenesisPath e) [0..<k] @
           (case on_Init w k (GenesisPath e) of
              Some err \<Rightarrow> [Call_Init k (GenesisPath e)]
            | None \<Rightarrow> [Call_Init k (GenesisPath e), Call_EnodeURL k])"
proof -
  let ?ns = "buildNodes (New e g) 0 (ValidatorAccounts e)"
  let ?pre = "take k ?ns" and ?node = "?ns ! k" and ?post = "drop (Suc k) ?ns"
  note sp = buildNodes_split[OF k, of "New e g"]
  have pre_ok: "\<forall>node\<in>set ?pre. init_ok w (GenesisPath e) (num node)"
  proof
    fix node assume "node \<in> set ?pre"
    then have "num node \<in> set (map num ?pre)" by simp
    then have "num node < k" unfolding sp(2) by simp
    then show "init_ok w (GenesisPath e) (num node)" using before by simp
  qed
  have node_fails: "\<not> init_ok w (GenesisPath e) (num ?node)" using fails sp(3) by simp
  have nn: "snd (on_EnodeURL w k) \<noteq> None" if "on_Init w k (GenesisPath e) = None"
    using fails that by (simp add: init_ok_def)
  have F: "(case Init_nodes w (GenesisPath e) ?ns 0 (replicate (length (ValidatorAccounts e)) []) [] of
               (err, urls', calls') \<Rightarrow> (err, calls')) =
     (case on_Init w k (GenesisPath e) of
        Some err \<Rightarrow> (Some err, init_calls (GenesisPath e) [0..<k] @ [Call_Init k (GenesisPath e)])
      | None \<Rightarrow> (snd (on_EnodeURL w k),
                 init_calls (GenesisPath e) [0..<k] @ [Call_Init k (GenesisPath e), Call_EnodeURL k]))"
    using Init_nodes_fail[OF pre_ok node_fails, of ?post 0 "replicate (length (ValidatorAccounts e)) []" "[]"]
    unfolding sp(2) sp(3) using sp(1) by (simp split: option.splits)
  show "fst (Cluster_Init w (apply_ops (New e g) ops)) =
           (case on_Init w k (GenesisPath e) of Some err \<Rightarrow> Some err | None \<Rightarrow> snd (on_EnodeURL w k))"
    using F nn unfolding Cluster_Init_unfold
    by (auto split: prod.splits option.splits)
  show "fst (snd (Cluster_Init w (apply_ops (New e g) ops))) =
           init_calls (GenesisPath e) [0..<k] @
           (case on_Init w k (GenesisPath e) of
              Some err \<Rightarrow> [Call_Init k (GenesisPath e)]
            | None \<Rightarrow> [Call_Init k (GenesisPath e), Call_EnodeURL k])"
    using F nn unfolding Cluster_Init_unfold
    by (auto split: prod.splits option.splits)
qed

lemma Cluster_Init_connect_fails:
  assumes k: "k < length (ValidatorAccounts e)"
    and inits: "\<forall>j<length (ValidatorAccounts e). init_ok w (GenesisPath e) j"
    and before: "\<forall>j<k. on_SetStaticNodes w j (peer_urls (enode_urls w (length (ValidatorAccounts e))) j) = None"
    and fails: "on_SetStaticNodes w k (peer_urls (enode_urls w (length (ValidatorAccounts e))) k) = Some err"
  shows "fst (Cluster_Init w (apply_ops (New e g) ops)) = Some err"
    and "fst (snd (Cluster_Init w (apply_ops (New e g) ops))) =
           init_calls (GenesisPath e) [0..<length (ValidatorAccounts e)] @
           connect_calls (enode_urls w (length (ValidatorAccounts e))) 0 [0..<Suc k]"
proof -
  let ?N = "length (ValidatorAccounts e)"
  let ?ns = "buildNodes (New e g) 0 (ValidatorAccounts e)"
  let ?pre = "take k ?ns" and ?node = "?ns ! k" and ?post = "drop (Suc k) ?ns"
  let ?urls = "enode_urls w ?N"
  note sp = buildNodes_split[OF k, of "New e g"]
  have nums: "map num ?ns = [0..<?N]" using Number_buildNodes[of "New e g" 0] by simp
  have len: "length ?ns = ?N" by (simp add: length_buildNodes)
  have all_ok: "\<forall>node\<in>set ?ns. init_ok w (GenesisPath e) (num node)"
  proof
    fix node assume "node \<in> set ?ns"
    then have "num node \<in> set (map num ?ns)" by simp
    then have "num node < ?N" unfolding nums by simp
    then show "init_ok w (GenesisPath e) (num node)" using inits by simp
  qed
  have "map (\<lambda>node. fst (on_EnodeURL w (num node))) ?ns = map (\<lambda>n. fst (on_EnodeURL w n)) (map num ?ns)"
    by (simp add: comp_def)
  then have I: "Init_nodes w (GenesisPath e) ?ns 0 (replicate ?N []) [] =
      (None, ?urls, init_calls (GenesisPath e) [0..<?N])"
    using Init_nodes_all_ok[OF all_ok, of 0 "replicate ?N []" "[]"] len nums
    by (simp add: enode_urls_def)
  have cok: "connect_ok w ?urls 0 (map num ?pre)"
    unfolding sp(2) using connect_ok_upt[of w ?urls 0 k] before by simp
  have "Connect_nodes w (?pre @ ?node # ?post) 0 ?urls (init_calls (GenesisPath e) [0..<?N]) =
      (Some err, init_calls (GenesisPath e) [0..<?N] @ connect_calls ?urls 0 (map num (?pre @ [?node])))"
    using fails sp(3) sp(4) by (intro Connect_nodes_fail[OF cok]) simp
  moreover have "map num (?pre @ [?node]) = [0..<Suc k]" using sp(2) sp(3) by simp
  ultimately have C: "Connect_nodes w ?ns 0 ?urls (init_calls (GenesisPath e) [0..<?N]) =
      (Some err, init_calls (GenesisPath e) [0..<?N] @ connect_calls ?urls 0 [0..<Suc k])"
    using sp(1) by simp
  show "fst (Cluster_Init w (apply_ops (New e g) ops)) = Some err"
    unfolding Cluster_Init_unfold I using C by simp
  show "fst (snd (Cluster_Init w (apply_ops (New e g) ops))) =
           init_calls (GenesisPath e) [0..<?N] @ connect_calls ?urls 0 [0..<Suc k]"
    unfolding Cluster_Init_unfold I using C by simp
qed

lemma call_node_init_calls: "c \<in> set (init_calls g ks) \<Longrightarrow> call_node c \<in> set ks \<and> \<not> is_SetStaticNodes c"
  by (induction ks) (auto simp: init_calls_def)

subsection \<open>The task group\<close>

lemma foldl_task_returns_kept:
  "g_err g = Some e \<Longrightarrow> foldl task_returns g rs = g"
  by (induction rs) (auto simp: task_returns_def split: option.splits)

lemma foldl_task_returns_nil:
  "\<forall>r\<in>set rs. r = None \<Longrightarrow> foldl task_returns g rs = g"
  by (induction rs) (auto simp: task_returns_def)

lemma group_after_first_error:
  assumes "\<forall>r\<in>set pre. r = None"
  shows "group_after (pre @ Some e # post) = \<lparr>g_err = Some e, g_canceled = True\<rparr>"
proof -
  have "foldl task_returns group_WithContext pre = group_WithContext"
    using assms by (rule foldl_task_returns_nil)
  moreover have "task_returns group_WithContext (Some e) = \<lparr>g_err = Some e, g_canceled = True\<rparr>"
    by (simp add: task_returns_def group_WithContext_def)
  ultimately show ?thesis
    by (simp add: group_after_def foldl_task_returns_kept)
qed

lemma group_after_no_error:
  "\<forall>r\<in>set rs. r = None \<Longrightarrow> group_after rs = group_WithContext"
  by (simp add: group_after_def foldl_task_returns_nil)

lemma group_after_None_iff:
  "g_err (group_after rs) = None \<longleftrightarrow> (\<forall>r\<in>set rs. r = None)"
proof
  assume "\<forall>r\<in>set rs. r = None"
  then show "g_err (group_after rs) = None"
    by (simp add: group_after_no_error group_WithContext_def)
next
  assume n: "g_err (group_after rs) = None"
  show "\<forall>r\<in>set rs. r = None"
  proof (rule ccontr)
    assume "\<not> (\<forall>r\<in>set rs. r = None)"
    then have "\<exists>r\<in>set rs. r \<noteq> None" by blast
    then obtain pre r post where rs: "rs = pre @ r # post" and r: "r \<noteq> None"
      and pre: "\<forall>p\<in>set pre. \<not> p \<noteq> None"
      using split_list_first_prop[of rs "\<lambda>r. r \<noteq> None"] by blast
    from r obtain e where "r = Some e" by auto
    with rs pre have "group_after rs = \<lparr>g_err = Some e, g_canceled = True\<rparr>"
      using group_after_first_error[of pre e post] by simp
    with n show False by simp
  qed
qed

subsection \<open>The claims about the cluster\<close>

text \<open>
  Claim C9. The node list of a cluster is \<open>nil\<close> after \<open>New\<close>; after the first of any
  operations (\<open>Init\<close>, \<open>Run\<close>, \<open>PrintNodeInfo\<close>, whatever the nodes do) it is the list
  built from the validator accounts of the environment, one node per account, and it
  stays that list after any further operations. The list is built once: a later
  \<open>ensureNodes\<close> returns the stored list and leaves the cluster as it is, even when the
  environment has changed in between.
\<close>

theorem nodes_built_once:
  "nodes (New e g) = None \<and>
   (\<forall>op ops. nodes (apply_ops (New e g) (op # ops))
       = Some (buildNodes (New e g) 0 (ValidatorAccounts e))) \<and>
   length (buildNodes (New e g) 0 (ValidatorAccounts e)) = length (ValidatorAccounts e) \<and>
   (\<forall>op ops e'. ensureNodes ((apply_ops (New e g) (op # ops))\<lparr>env := e'\<rparr>) =
       (buildNodes (New e g) 0 (ValidatorAccounts e), (apply_ops (New e g) (op # ops))\<lparr>env := e'\<rparr>))"
proof -
  have "nodes (New e g) = None" by (simp add: New_def)
  moreover have "\<And>op ops. nodes (apply_ops (New e g) (op # ops))
       = Some (buildNodes (New e g) 0 (ValidatorAccounts e))"
    by (simp add: apply_ops_Cons ensureNodes_New)
  moreover have "\<And>op ops e'. ensureNodes ((apply_ops (New e g) (op # ops))\<lparr>env := e'\<rparr>) =
       (buildNodes (New e g) 0 (ValidatorAccounts e), (apply_ops (New e g) (op # ops))\<lparr>env := e'\<rparr>)"
    by (simp add: apply_ops_Cons ensureNodes_New) (simp add: ensureNodes_def)
  ultimately show ?thesis by (simp add: length_buildNodes)
qed

theorem nodes_built_once_witness:
  "nodes (New ex_env ''geth'') = None \<and>
   map num (the (nodes (apply_ops (New ex_env ''geth'')
      [Op_PrintNodeInfo ex_nodes_ok, Op_Init ex_init_fails, Op_Run ex_returns]))) = [0, 1, 2, 3] \<and>
   length (the (nodes (apply_ops (New ex_env ''geth'')
      [Op_PrintNodeInfo ex_nodes_ok, Op_Init ex_init_fails, Op_Run ex_returns]))) = 4 \<and>
   length (fst (ensureNodes ((apply_ops (New ex_env ''geth'') [Op_Init ex_nodes_ok])
      \<lparr>env := ex_env\<lparr>ValidatorAccounts := []\<rparr>\<rparr>))) = 4"
  using nodes_built_once[of ex_env "''geth''"]
  by (simp add: New_def ex_env_def mkNode_def)

text \<open>
  Claim C1. For a cluster of \<open>N \<ge> 2\<close> validators (made by \<open>New\<close>, after any operations), if
  \<open>Init\<close> returns \<open>nil\<close> then every node \<open>i\<close> was pushed exactly one static peer list: the
  URLs of the nodes other than \<open>i\<close>, in index order. It has \<open>N - 1\<close> entries, and it does
  not contain the URL of node \<open>i\<close> itself (the URLs identify the nodes: no two nodes
  report the same one).
\<close>

theorem Init_full_mesh:
  assumes "fst (Cluster_Init w (apply_ops (New e g) ops)) = None"
    and "2 \<le> length (ValidatorAccounts e)" and "i < length (ValidatorAccounts e)"
  shows "static_peers (fst (snd (Cluster_Init w (apply_ops (New e g) ops)))) i =
           [map (\<lambda>n. fst (on_EnodeURL w n)) (filter (\<lambda>n. n \<noteq> i) [0..<length (ValidatorAccounts e)])]
       \<and> length (map (\<lambda>n. fst (on_EnodeURL w n)) (filter (\<lambda>n. n \<noteq> i) [0..<length (ValidatorAccounts e)]))
           = length (ValidatorAccounts e) - 1
       \<and> (distinct (enode_urls w (length (ValidatorAccounts e))) \<longrightarrow>
            fst (on_EnodeURL w i) \<notin> set (map (\<lambda>n. fst (on_EnodeURL w n))
                                        (filter (\<lambda>n. n \<noteq> i) [0..<length (ValidatorAccounts e)])))"
proof -
  let ?N = "length (ValidatorAccounts e)"
  let ?urls = "enode_urls w ?N"
  have l: "length ?urls = ?N" by (simp add: enode_urls_def)
  have p: "peer_urls ?urls i = map (\<lambda>n. fst (on_EnodeURL w n)) (filter (\<lambda>n. n \<noteq> i) [0..<?N])"
    using assms(3) by (rule peer_urls_enode_urls)
  have "static_peers (fst (snd (Cluster_Init w (apply_ops (New e g) ops)))) i = [peer_urls ?urls i]"
    using Cluster_Init_success[OF assms(1)] static_peers_connect_calls[of ?urls 0 ?N i] assms(3)
    by (simp add: static_peers_append static_peers_init_calls)
  moreover have "length (peer_urls ?urls i) = ?N - 1"
    using length_peer_urls[of i ?urls] assms(3) l by simp
  moreover have "distinct ?urls \<longrightarrow> fst (on_EnodeURL w i) \<notin> set (peer_urls ?urls i)"
    using own_not_in_peer_urls[of i ?urls] assms(3) l by (auto simp: enode_urls_def)
  ultimately show ?thesis unfolding p by simp
qed

theorem Init_full_mesh_witness:
  "fst (Cluster_Init ex_nodes_ok (apply_ops (New ex_env ''geth'') [])) = None \<and>
   (2::nat) \<le> length (ValidatorAccounts ex_env) \<and> (2::nat) < length (ValidatorAccounts ex_env) \<and>
   distinct (enode_urls ex_nodes_ok (length (ValidatorAccounts ex_env))) \<and>
   static_peers (fst (snd (Cluster_Init ex_nodes_ok (apply_ops (New ex_env ''geth'') [])))) 2 =
     [[''enode://a'', ''enode://b'', ''enode://d'']] \<and>
   ex_url 2 \<notin> set [''enode://a'', ''enode://b'', ''enode://d'']"
proof -
  have ok: "fst (Cluster_Init ex_nodes_ok (apply_ops (New ex_env ''geth'') [])) = None"
    by code_simp
  have n: "(2::nat) \<le> length (ValidatorAccounts ex_env)" "(2::nat) < length (ValidatorAccounts ex_env)"
    by (simp_all add: ex_env_def)
  have d: "distinct (enode_urls ex_nodes_ok (length (ValidatorAccounts ex_env)))"
    by code_simp
  have m: "map (\<lambda>n. fst (on_EnodeURL ex_nodes_ok n)) (filter (\<lambda>n. n \<noteq> 2) [0..<length (ValidatorAccounts ex_env)])
      = [''enode://a'', ''enode://b'', ''enode://d'']"
    by code_simp
  have u: "fst (on_EnodeURL ex_nodes_ok 2) = ex_url 2" by (simp add: ex_nodes_ok_def)
  show ?thesis
    using Init_full_mesh[OF ok n(1) n(2)] ok n d unfolding m u by simp
qed

lemma first_failure:
  fixes k N :: nat
  shows "k < N \<Longrightarrow> \<not> P k \<Longrightarrow> \<exists>k'<N. \<not> P k' \<and> (\<forall>j<k'. P j)"
proof (induction k rule: less_induct)
  case (less k)
  show ?case
  proof (cases "\<forall>j<k. P j")
    case True
    with less.prems show ?thesis by blast
  next
    case False
    then obtain j where j: "j < k" "\<not> P j" by blast
    then have "j < N" using less.prems(1) by simp
    from less.IH[OF j(1) this j(2)] show ?thesis .
  qed
qed

lemma Connect_nodes_extends:
  "\<exists>rest. snd (Connect_nodes w ns i urls calls) = calls @ rest"
proof (induction ns arbitrary: i calls)
  case Nil
  then show ?case by simp
next
  case (Cons node rest)
  show ?case
  proof (cases "Node_SetStaticNodes w node (peer_urls urls i)")
    case None
    from Cons[of "Suc i" "calls @ [Call_SetStaticNodes (num node) (peer_urls urls i)]"]
    show ?thesis using None by (auto simp: Let_def)
  next
    case (Some err)
    then show ?thesis by (simp add: Let_def)
  qed
qed

lemma Cluster_Init_inits_first:
  assumes inits: "\<forall>j<length (ValidatorAccounts e). init_ok w (GenesisPath e) j"
  shows "\<exists>rest. fst (snd (Cluster_Init w (apply_ops (New e g) ops))) =
           init_calls (GenesisPath e) [0..<length (ValidatorAccounts e)] @ rest"
proof -
  let ?N = "length (ValidatorAccounts e)"
  let ?ns = "buildNodes (New e g) 0 (ValidatorAccounts e)"
  have nums: "map num ?ns = [0..<?N]" using Number_buildNodes[of "New e g" 0] by simp
  have len: "length ?ns = ?N" by (simp add: length_buildNodes)
  have all_ok: "\<forall>node\<in>set ?ns. init_ok w (GenesisPath e) (num node)"
  proof
    fix node assume "node \<in> set ?ns"
    then have "num node \<in> set (map num ?ns)" by simp
    then have "num node < ?N" unfolding nums by simp
    then show "init_ok w (GenesisPath e) (num node)" using inits by simp
  qed
  have I: "Init_nodes w (GenesisPath e) ?ns 0 (replicate ?N []) [] =
      (None, map (\<lambda>node. fst (on_EnodeURL w (num node))) ?ns, init_calls (GenesisPath e) [0..<?N])"
    using Init_nodes_all_ok[OF all_ok, of 0 "replicate ?N []" "[]"] len nums by simp
  obtain rest where "snd (Connect_nodes w ?ns 0 (map (\<lambda>node. fst (on_EnodeURL w (num node))) ?ns)
       (init_calls (GenesisPath e) [0..<?N])) = init_calls (GenesisPath e) [0..<?N] @ rest"
    using Connect_nodes_extends by blast
  then show ?thesis unfolding Cluster_Init_unfold I by (auto split: prod.splits)
qed

lemma Cluster_Init_peering_after_inits:
  assumes "\<exists>c\<in>set (fst (snd (Cluster_Init w (apply_ops (New e g) ops)))). is_SetStaticNodes c"
  shows "(\<forall>j<length (ValidatorAccounts e). init_ok w (GenesisPath e) j) \<and>
         (\<exists>rest. fst (snd (Cluster_Init w (apply_ops (New e g) ops))) =
            init_calls (GenesisPath e) [0..<length (ValidatorAccounts e)] @ rest)"
proof -
  have all: "\<forall>j<length (ValidatorAccounts e). init_ok w (GenesisPath e) j"
  proof (rule ccontr)
    assume "\<not> (\<forall>j<length (ValidatorAccounts e). init_ok w (GenesisPath e) j)"
    then obtain k0 where "k0 < length (ValidatorAccounts e)" "\<not> init_ok w (GenesisPath e) k0" by blast
    from first_failure[of k0 _ "init_ok w (GenesisPath e)", OF this] obtain k where k: "k < length (ValidatorAccounts e)"
      and f: "\<not> init_ok w (GenesisPath e) k" and b: "\<forall>j<k. init_ok w (GenesisPath e) j" by blast
    from Cluster_Init_init_fails(2)[OF k b f, of g ops] assms
    show False by (fastforce split: option.splits dest: call_node_init_calls)
  qed
  with Cluster_Init_inits_first[OF all] show ?thesis by blast
qed

text \<open>
  Claim C2. \<open>Init\<close> visits the nodes in index order and stops at the first failure.
  If the nodes before \<open>k\<close> initialize and node \<open>k\<close> does not (its \<open>Init\<close> fails, or its
  \<open>EnodeURL\<close> does), \<open>Init\<close> returns that error, and the calls it has made are the two
  calls on each of the nodes \<open>0..k-1\<close> followed by the failed attempt on node \<open>k\<close>:
  no call on a later node, no call that undoes an earlier one, no peer list pushed.
  If every node initializes and node \<open>k\<close> is the first to refuse its peer list with
  error \<open>err\<close>, \<open>Init\<close> returns \<open>err\<close>, and the calls are the initialization of all \<open>N\<close>
  nodes followed by the pushes to the nodes \<open>0..k\<close> and no further one.
  In every run, if a peer list is pushed at all then every node has initialized and
  the calls start with the initialization of all \<open>N\<close> nodes.
\<close>

theorem Init_fail_fast:
  "(k < length (ValidatorAccounts e) \<and> (\<forall>j<k. init_ok w (GenesisPath e) j) \<and>
      \<not> init_ok w (GenesisPath e) k \<longrightarrow>
      fst (Cluster_Init w (apply_ops (New e g) ops)) =
        (case on_Init w k (GenesisPath e) of Some err \<Rightarrow> Some err | None \<Rightarrow> snd (on_EnodeURL w k)) \<and>
      fst (Cluster_Init w (apply_ops (New e g) ops)) \<noteq> None \<and>
      fst (snd (Cluster_Init w (apply_ops (New e g) ops))) =
        init_calls (GenesisPath e) [0..<k] @
        (case on_Init w k (GenesisPath e) of
           Some err \<Rightarrow> [Call_Init k (GenesisPath e)]
         | None \<Rightarrow> [Call_Init k (GenesisPath e), Call_EnodeURL k]) \<and>
      (\<forall>c\<in>set (fst (snd (Cluster_Init w (apply_ops (New e g) ops)))).
          call_node c \<le> k \<and> \<not> is_SetStaticNodes c))
   \<and>
   (k < length (ValidatorAccounts e) \<and> (\<forall>j<length (ValidatorAccounts e). init_ok w (GenesisPath e) j) \<and>
      (\<forall>j<k. on_SetStaticNodes w j (peer_urls (enode_urls w (length (ValidatorAccounts e))) j) = None) \<and>
      on_SetStaticNodes w k (peer_urls (enode_urls w (length (ValidatorAccounts e))) k) = Some err \<longrightarrow>
      fst (Cluster_Init w (apply_ops (New e g) ops)) = Some err \<and>
      fst (snd (Cluster_Init w (apply_ops (New e g) ops))) =
        init_calls (GenesisPath e) [0..<length (ValidatorAccounts e)] @
        connect_calls (enode_urls w (length (ValidatorAccounts e))) 0 [0..<Suc k])
   \<and>
   ((\<exists>c\<in>set (fst (snd (Cluster_Init w (apply_ops (New e g) ops)))). is_SetStaticNodes c) \<longrightarrow>
      (\<forall>j<length (ValidatorAccounts e). init_ok w (GenesisPath e) j) \<and>
      (\<exists>rest. fst (snd (Cluster_Init w (apply_ops (New e g) ops))) =
         init_calls (GenesisPath e) [0..<length (ValidatorAccounts e)] @ rest))"
proof (intro conjI impI)
  assume "\<exists>c\<in>set (fst (snd (Cluster_Init w (apply_ops (New e g) ops)))). is_SetStaticNodes c"
  from Cluster_Init_peering_after_inits[OF this]
  show "\<forall>j<length (ValidatorAccounts e). init_ok w (GenesisPath e) j"
    and "\<exists>rest. fst (snd (Cluster_Init w (apply_ops (New e g) ops))) =
         init_calls (GenesisPath e) [0..<length (ValidatorAccounts e)] @ rest"
    by blast+
next
  assume h: "k < length (ValidatorAccounts e) \<and> (\<forall>j<k. init_ok w (GenesisPath e) j) \<and>
      \<not> init_ok w (GenesisPath e) k"
  then have k: "k < length (ValidatorAccounts e)" and b: "\<forall>j<k. init_ok w (GenesisPath e) j"
    and f: "\<not> init_ok w (GenesisPath e) k" by simp_all
  note r = Cluster_Init_init_fails[OF k b f, of g ops]
  show "fst (Cluster_Init w (apply_ops (New e g) ops)) =
        (case on_Init w k (GenesisPath e) of Some err \<Rightarrow> Some err | None \<Rightarrow> snd (on_EnodeURL w k))"
    by (rule r(1))
  show "fst (Cluster_Init w (apply_ops (New e g) ops)) \<noteq> None"
    unfolding r(1) using f by (auto simp: init_ok_def split: option.splits)
  show c: "fst (snd (Cluster_Init w (apply_ops (New e g) ops))) =
        init_calls (GenesisPath e) [0..<k] @
        (case on_Init w k (GenesisPath e) of
           Some err \<Rightarrow> [Call_Init k (GenesisPath e)]
         | None \<Rightarrow> [Call_Init k (GenesisPath e), Call_EnodeURL k])"
    by (rule r(2))
  show "\<forall>c\<in>set (fst (snd (Cluster_Init w (apply_ops (New e g) ops)))).
          call_node c \<le> k \<and> \<not> is_SetStaticNodes c"
    unfolding c by (fastforce split: option.splits dest: call_node_init_calls)
next
  assume h: "k < length (ValidatorAccounts e) \<and> (\<forall>j<length (ValidatorAccounts e). init_ok w (GenesisPath e) j) \<and>
      (\<forall>j<k. on_SetStaticNodes w j (peer_urls (enode_urls w (length (ValidatorAccounts e))) j) = None) \<and>
      on_SetStaticNodes w k (peer_urls (enode_urls w (length (ValidatorAccounts e))) k) = Some err"
  then have k: "k < length (ValidatorAccounts e)"
    and i: "\<forall>j<length (ValidatorAccounts e). init_ok w (GenesisPath e) j"
    and b: "\<forall>j<k. on_SetStaticNodes w j (peer_urls (enode_urls w (length (ValidatorAccounts e))) j) = None"
    and f: "on_SetStaticNodes w k (peer_urls (enode_urls w (length (ValidatorAccounts e))) k) = Some err"
    by simp_all
  note r = Cluster_Init_connect_fails[OF k i b f, of g ops]
  show "fst (Cluster_Init w (apply_ops (New e g) ops)) = Some err" by (rule r(1))
  show "fst (snd (Cluster_Init w (apply_ops (New e g) ops))) =
        init_calls (GenesisPath e) [0..<length (ValidatorAccounts e)] @
        connect_calls (enode_urls w (length (ValidatorAccounts e))) 0 [0..<Suc k]"
    by (rule r(2))
qed

theorem Init_fail_fast_witness:
  "((2::nat) < length (ValidatorAccounts ex_env) \<and> init_ok ex_init_fails (GenesisPath ex_env) 0 \<and>
    init_ok ex_init_fails (GenesisPath ex_env) 1 \<and> \<not> init_ok ex_init_fails (GenesisPath ex_env) 2 \<and>
    Cluster_Init ex_init_fails (apply_ops (New ex_env ''geth'') []) =
      (Some (Failure ''geth init''),
       [Call_Init 0 ''genesis.json'', Call_EnodeURL 0, Call_Init 1 ''genesis.json'', Call_EnodeURL 1,
        Call_Init 2 ''genesis.json''],
       apply_ops (New ex_env ''geth'') [Op_Init ex_init_fails]))
   \<and>
   ((1::nat) < length (ValidatorAccounts ex_env) \<and>
    on_SetStaticNodes ex_peering_fails 0 [''enode://b'', ''enode://c'', ''enode://d''] = None \<and>
    on_SetStaticNodes ex_peering_fails 1 [''enode://a'', ''enode://c'', ''enode://d'']
      = Some (Failure ''static-nodes.json'') \<and>
    fst (Cluster_Init ex_peering_fails (apply_ops (New ex_env ''geth'') [])) = Some (Failure ''static-nodes.json'') \<and>
    fst (snd (Cluster_Init ex_peering_fails (apply_ops (New ex_env ''geth'') []))) =
      [Call_Init 0 ''genesis.json'', Call_EnodeURL 0, Call_Init 1 ''genesis.json'', Call_EnodeURL 1,
       Call_Init 2 ''genesis.json'', Call_EnodeURL 2, Call_Init 3 ''genesis.json'', Call_EnodeURL 3,
       Call_SetStaticNodes 0 [''enode://b'', ''enode://c'', ''enode://d''],
       Call_SetStaticNodes 1 [''enode://a'', ''enode://c'', ''enode://d'']])"
proof -
  have n: "length (ValidatorAccounts ex_env) = 4" "GenesisPath ex_env = ''genesis.json''"
    by (simp_all add: ex_env_def)
  have a: "(2::nat) < length (ValidatorAccounts ex_env) \<and> (\<forall>j<2. init_ok ex_init_fails (GenesisPath ex_env) j) \<and>
      \<not> init_ok ex_init_fails (GenesisPath ex_env) 2"
    by (simp add: n init_ok_def ex_init_fails_def)
  have u: "enode_urls ex_peering_fails 4 = [''enode://a'', ''enode://b'', ''enode://c'', ''enode://d'']"
    by code_simp
  have p: "peer_urls [''enode://a'', ''enode://b'', ''enode://c'', ''enode://d''] 0 = [''enode://b'', ''enode://c'', ''enode://d'']"
    "peer_urls [''enode://a'', ''enode://b'', ''enode://c'', ''enode://d''] 1 = [''enode://a'', ''enode://c'', ''enode://d'']"
    by (simp_all add: peer_urls_def)
  have b: "(1::nat) < length (ValidatorAccounts ex_env) \<and>
      (\<forall>j<length (ValidatorAccounts ex_env). init_ok ex_peering_fails (GenesisPath ex_env) j) \<and>
      (\<forall>j<1. on_SetStaticNodes ex_peering_fails j
                 (peer_urls (enode_urls ex_peering_fails (length (ValidatorAccounts ex_env))) j) = None) \<and>
      on_SetStaticNodes ex_peering_fails 1
        (peer_urls (enode_urls ex_peering_fails (length (ValidatorAccounts ex_env))) 1)
        = Some (Failure ''static-nodes.json'')"
    unfolding n u by (simp add: init_ok_def ex_peering_fails_def)
  have c0: "init_calls ''genesis.json'' [0..<2] = [Call_Init 0 ''genesis.json'', Call_EnodeURL 0,
      Call_Init 1 ''genesis.json'', Call_EnodeURL 1]"
    by code_simp
  have c1: "init_calls ''genesis.json'' [0..<4] @
      connect_calls [''enode://a'', ''enode://b'', ''enode://c'', ''enode://d''] 0 [0..<Suc 1] =
      [Call_Init 0 ''genesis.json'', Call_EnodeURL 0, Call_Init 1 ''genesis.json'', Call_EnodeURL 1,
       Call_Init 2 ''genesis.json'', Call_EnodeURL 2, Call_Init 3 ''genesis.json'', Call_EnodeURL 3,
       Call_SetStaticNodes 0 [''enode://b'', ''enode://c'', ''enode://d''],
       Call_SetStaticNodes 1 [''enode://a'', ''enode://c'', ''enode://d'']]"
    by code_simp
  have cl: "snd (snd (Cluster_Init ex_init_fails (apply_ops (New ex_env ''geth'') []))) =
       apply_ops (New ex_env ''geth'') [Op_Init ex_init_fails]"
    by (simp add: apply_ops_def)
  have i2: "on_Init ex_init_fails 2 ''genesis.json'' = Some (Failure ''geth init'')"
    by (simp add: ex_init_fails_def)
  from Init_fail_fast[of 2 ex_env ex_init_fails "''geth''" "[]"] a
  have A: "fst (Cluster_Init ex_init_fails (apply_ops (New ex_env ''geth'') [])) = Some (Failure ''geth init'')"
    "fst (snd (Cluster_Init ex_init_fails (apply_ops (New ex_env ''geth'') []))) =
       [Call_Init 0 ''genesis.json'', Call_EnodeURL 0, Call_Init 1 ''genesis.json'', Call_EnodeURL 1,
        Call_Init 2 ''genesis.json'']"
    unfolding n i2 c0 by simp_all
  from Init_fail_fast[of 1 ex_env ex_peering_fails "''geth''" "[]" "Failure ''static-nodes.json''"] b
  have B: "fst (Cluster_Init ex_peering_fails (apply_ops (New ex_env ''geth'') [])) = Some (Failure ''static-nodes.json'')"
    "fst (snd (Cluster_Init ex_peering_fails (apply_ops (New ex_env ''geth'') []))) =
      [Call_Init 0 ''genesis.json'', Call_EnodeURL 0, Call_Init 1 ''genesis.json'', Call_EnodeURL 1,
       Call_Init 2 ''genesis.json'', Call_EnodeURL 2, Call_Init 3 ''genesis.json'', Call_EnodeURL 3,
       Call_SetStaticNodes 0 [''enode://b'', ''enode://c'', ''enode://d''],
       Call_SetStaticNodes 1 [''enode://a'', ''enode://c'', ''enode://d'']]"
    unfolding n u c1 by simp_all
  have E: "Cluster_Init ex_init_fails (apply_ops (New ex_env ''geth'') []) =
      (Some (Failure ''geth init''),
       [Call_Init 0 ''genesis.json'', Call_EnodeURL 0, Call_Init 1 ''genesis.json'', Call_EnodeURL 1,
        Call_Init 2 ''genesis.json''],
       apply_ops (New ex_env ''geth'') [Op_Init ex_init_fails])"
    using A cl by (simp add: prod_eq_iff)
  have s: "on_SetStaticNodes ex_peering_fails 0 [''enode://b'', ''enode://c'', ''enode://d''] = None"
    "on_SetStaticNodes ex_peering_fails 1 [''enode://a'', ''enode://c'', ''enode://d'']
      = Some (Failure ''static-nodes.json'')"
    by (simp_all add: ex_peering_fails_def)
  have i01: "init_ok ex_init_fails (GenesisPath ex_env) 0" "init_ok ex_init_fails (GenesisPath ex_env) 1"
    "\<not> init_ok ex_init_fails (GenesisPath ex_env) 2"
    by (simp_all add: init_ok_def ex_init_fails_def)
  show ?thesis using E B s i01 by (simp add: n)
qed

text \<open>
  Claim C4. \<open>Run\<close> starts every node as a task of one group, each with the context of
  the group. When the nodes that return first return \<open>nil\<close> and node \<open>m\<close> then returns the
  error \<open>err\<close>, the context of the group is not cancelled before that return and is
  cancelled from it on, whatever the nodes still running return later; and once every
  node has returned, \<open>Run\<close> returns \<open>err\<close>, not the error of a node that returned later.
\<close>

theorem Run_first_error:
  assumes "returns = pre @ (m, Some err) # post"
    and "\<forall>r\<in>set pre. snd r = None"
    and "\<forall>n<length (ValidatorAccounts e). n \<in> fst ` set returns"
  shows "fst (Cluster_Run returns (apply_ops (New e g) ops)) = Some (Some err)
       \<and> fst (snd (Cluster_Run returns (apply_ops (New e g) ops)))
           = map (\<lambda>n. (n, Group_ctx)) [0..<length (ValidatorAccounts e)]
       \<and> \<not> g_canceled (group_after (map snd pre))
       \<and> (\<forall>k\<le>length post. g_canceled (group_after (map snd (pre @ (m, Some err) # take k post))))"
proof -
  let ?ns = "buildNodes (New e g) 0 (ValidatorAccounts e)"
  have en: "fst (ensureNodes (apply_ops (New e g) ops)) = ?ns" by (rule reachable_ensureNodes(1))
  have nums: "map num ?ns = [0..<length (ValidatorAccounts e)]"
    using Number_buildNodes[of "New e g" 0] by simp
  have started: "map (\<lambda>node. (num node, Group_ctx)) ?ns = map (\<lambda>n. (n, Group_ctx)) (map num ?ns)"
    by (simp add: comp_def)
  have pre: "\<forall>r\<in>set (map snd pre). r = None" using assms(2) by simp
  have all: "list_all (\<lambda>n. n \<in> set (map fst returns)) [0..<length (ValidatorAccounts e)]"
    using assms(3) by (simp add: list_all_iff)
  have "group_after (map snd returns) = \<lparr>g_err = Some err, g_canceled = True\<rparr>"
    using group_after_first_error[OF pre, of err "map snd post"] assms(1) by simp
  then have w: "group_Wait [0..<length (ValidatorAccounts e)] returns = Some (Some err)"
    using all by (simp add: group_Wait_def)
  have 1: "fst (Cluster_Run returns (apply_ops (New e g) ops)) = Some (Some err)"
    using en w nums by (cases "ensureNodes (apply_ops (New e g) ops)") (simp add: Cluster_Run_def Let_def comp_def)
  have 2: "fst (snd (Cluster_Run returns (apply_ops (New e g) ops)))
           = map (\<lambda>n. (n, Group_ctx)) [0..<length (ValidatorAccounts e)]"
    using en started nums by (cases "ensureNodes (apply_ops (New e g) ops)") (simp add: Cluster_Run_def Let_def)
  have 3: "\<not> g_canceled (group_after (map snd pre))"
    using group_after_no_error[OF pre] by (simp add: group_WithContext_def)
  have 4: "\<forall>k\<le>length post. g_canceled (group_after (map snd (pre @ (m, Some err) # take k post)))"
    using group_after_first_error[OF pre, of err] by simp
  from 1 2 3 4 show ?thesis by simp
qed

theorem Run_first_error_witness:
  "ex_returns = [(1, None)] @ (2, Some (Failure ''killed'')) # [(0, Some (Failure ''late'')), (3, None)] \<and>
   fst (Cluster_Run ex_returns (apply_ops (New ex_env ''geth'') [])) = Some (Some (Failure ''killed'')) \<and>
   fst (snd (Cluster_Run ex_returns (apply_ops (New ex_env ''geth'') [])))
     = [(0, Group_ctx), (1, Group_ctx), (2, Group_ctx), (3, Group_ctx)] \<and>
   \<not> g_canceled (group_after [None]) \<and>
   g_canceled (group_after [None, Some (Failure ''killed'')]) \<and>
   g_canceled (group_after [None, Some (Failure ''killed''), Some (Failure ''late''), None])"
proof -
  have r: "ex_returns = [(1, None)] @ (2, Some (Failure ''killed'')) # [(0, Some (Failure ''late'')), (3, None)]"
    by (simp add: ex_returns_def)
  have p: "\<forall>r\<in>set [(1::nat, None::error option)]. snd r = None" by simp
  have a: "\<forall>n<length (ValidatorAccounts ex_env). n \<in> fst ` set ex_returns"
  proof (intro allI impI)
    fix n assume "n < length (ValidatorAccounts ex_env)"
    then have "n < 4" by (simp add: ex_env_def)
    then have "n = 0 \<or> n = 1 \<or> n = 2 \<or> n = 3" by linarith
    then show "n \<in> fst ` set ex_returns" by (auto simp: ex_returns_def)
  qed
  have u: "[0..<length (ValidatorAccounts ex_env)] = [0, 1, 2, 3]" by code_simp
  note t = Run_first_error[OF r p a, of "''geth''" "[]", unfolded u]
  from t have al: "\<forall>k\<le>length [(0::nat, Some (Failure ''late'')), (3, None)].
      g_canceled (group_after (map snd ([(1::nat, None)] @ (2::nat, Some (Failure ''killed''))
         # take k [(0::nat, Some (Failure ''late'')), (3, None)])))"
    by blast
  from al[rule_format, of 0] have k0: "g_canceled (group_after [None, Some (Failure ''killed'')])"
    by simp
  from al[rule_format, of 2]
  have k2: "g_canceled (group_after [None, Some (Failure ''killed''), Some (Failure ''late''), None])"
    by simp
  show ?thesis using r t k0 k2 by simp
qed

section \<open>Properties of the load bot\<close>

subsection \<open>float64 rounding\<close>

lemma bit_length_less: "n < 2 ^ bit_length n"
proof (induction n rule: bit_length.induct)
  case (1 n)
  show ?case
  proof (cases "n = 0")
    case True
    then show ?thesis by simp
  next
    case False
    with 1 have "n div 2 < 2 ^ bit_length (n div 2)" by simp
    then have "n < 2 * 2 ^ bit_length (n div 2)" by linarith
    then show ?thesis using False by (subst bit_length.simps) simp
  qed
qed

lemma bit_length_ge: "0 < n \<Longrightarrow> 2 ^ (bit_length n - 1) \<le> n"
proof (induction n rule: bit_length.induct)
  case (1 n)
  show ?case
  proof (cases "n div 2 = 0")
    case True
    then have "n = 1" using 1(2) by linarith
    then show ?thesis by (simp add: bit_length.simps)
  next
    case False
    with 1 have "2 ^ (bit_length (n div 2) - 1) \<le> n div 2" by simp
    moreover have "bit_length (n div 2) > 0" using False by (subst bit_length.simps) simp
    ultimately have "2 ^ bit_length (n div 2) \<le> 2 * (n div 2)"
      by (cases "bit_length (n div 2)") simp_all
    then have "2 ^ bit_length (n div 2) \<le> n" by linarith
    then show ?thesis using 1(2) by (subst bit_length.simps) simp
  qed
qed

lemma bit_length_le: "n < 2 ^ k \<Longrightarrow> bit_length n \<le> k"
proof (rule ccontr)
  assume n: "n < 2 ^ k" and "\<not> bit_length n \<le> k"
  then have k: "k \<le> bit_length n - 1" and pos: "0 < n"
    by (auto intro: Nat.gr0I simp: bit_length.simps)
  have "(2::nat) ^ k \<le> 2 ^ (bit_length n - 1)" using k by (rule power_increasing) simp
  also have "\<dots> \<le> n" using pos by (rule bit_length_ge)
  finally show False using n by simp
qed

lemma round53_small: "n < 2 ^ 53 \<Longrightarrow> round53 n = n"
  using bit_length_le[of n 53] by (simp add: round53_def)

text \<open>Rounding moves a number by at most half a unit in the last place.\<close>

lemma round53_error:
  "2 * round53 k \<le> 2 * k + 2 ^ (bit_length k - 53) \<and> 2 * k \<le> 2 * round53 k + 2 ^ (bit_length k - 53)"
proof (cases "bit_length k \<le> 53")
  case True
  then show ?thesis by (simp add: round53_def)
next
  case False
  define P :: nat where "P = 2 ^ (bit_length k - 53)"
  define r where "r = k mod P"
  define QP where "QP = k div P * P"
  have k: "k = QP + r" unfolding QP_def r_def by (rule div_mult_mod_eq[symmetric])
  have r: "r < P" by (simp add: r_def P_def)
  show ?thesis
  proof (cases "2 * r > P \<or> (2 * r = P \<and> odd (k div P))")
    case True
    then have "round53 k = (k div P + 1) * P"
      using False by (simp add: round53_def Let_def P_def[symmetric] r_def[symmetric])
    then have F: "round53 k = QP + P" by (simp add: QP_def)
    from True have "P \<le> 2 * r" by auto
    then show ?thesis unfolding F P_def[symmetric] using k r by simp
  next
    case False2: False
    then have "\<not> (2 * r > P \<or> (2 * r = P \<and> odd (k div P)))" by simp
    then have "round53 k = k div P * P"
      using False unfolding round53_def Let_def P_def[symmetric] r_def[symmetric] by auto
    then have F: "round53 k = QP" by (simp add: QP_def)
    from False2 have "2 * r \<le> P" by auto
    then show ?thesis unfolding F P_def[symmetric] using k r by simp
  qed
qed

text \<open>A number less than half a unit below a representable one rounds up to it.\<close>

lemma round53_up:
  assumes L: "53 < bit_length k" and g: "k + d = g * 2 ^ (bit_length k - 53)"
    and d: "0 < d" "2 * d < 2 ^ (bit_length k - 53)"
  shows "round53 k = g * 2 ^ (bit_length k - 53)"
proof -
  define P :: nat where "P = 2 ^ (bit_length k - 53)"
  have P: "0 < P" by (simp add: P_def)
  obtain g' where g': "g = Suc g'" using g d(1) by (cases g) auto
  have gP: "k + d = g' * P + P" using g by (simp add: g' P_def)
  have dP: "2 * d < P" using d(2) by (simp add: P_def)
  have k: "k = g' * P + (P - d)" using gP dP by linarith
  have lt: "P - d < P" using d(1) P by simp
  have q: "k div P = g'" using lt by (subst k) simp
  have r: "k mod P = P - d" using lt by (subst k) simp
  have "2 * (P - d) > P" using dP by linarith
  then have "round53 k = (g' + 1) * P"
    using L by (simp add: round53_def Let_def P_def[symmetric] q r)
  then show ?thesis by (simp add: g' P_def)
qed

lemma mant_095_eq: "20 * mant_095 + 8 = 19 * 2 ^ 53"
  by (simp add: mant_095_def)

text \<open>Below \<open>2^48\<close> the float64 product with 0.95, truncated, is the exact \<open>19 n / 20\<close>
  rounded down: the error of the constant is too small to cross an integer, and an
  exact integer product is hit by the rounding.\<close>

lemma times_095_nat:
  assumes n: "n < 2 ^ 48"
  shows "round53 (round53 n * mant_095) div 2 ^ 53 = (19 * n) div 20"
proof -
  define K where "K = n * mant_095"
  define F where "F = round53 K"
  define m where "m = (19 * n) div 20"
  define rho where "rho = (19 * n) mod 20"
  define P :: nat where "P = 2 ^ (bit_length K - 53)"
  have n53: "round53 n = n" using n by (intro round53_small) (simp add: order_less_trans[OF n])
  have mr: "19 * n = 20 * m + rho" and rho: "rho < 20" by (simp_all add: m_def rho_def)
  have K20: "20 * K + 8 * n = 19 * n * 2 ^ 53"
    using mant_095_eq by (simp add: K_def algebra_simps)
  have "n * mant_095 \<le> 2 ^ 48 * mant_095" using n by (intro mult_le_mono1) simp
  also have "\<dots> < 2 ^ 101" by (simp add: mant_095_def)
  finally have K101: "K < 2 ^ 101" by (simp add: K_def)
  have L101: "bit_length K \<le> 101" using K101 by (rule bit_length_le)
  have "P \<le> 2 ^ (101 - 53)" unfolding P_def using L101 by (intro power_increasing) simp_all
  then have P48: "P \<le> 2 ^ 48" by simp
  have err: "2 * F \<le> 2 * K + P" "2 * K \<le> 2 * F + P"
    using round53_error[of K] by (simp_all add: F_def P_def)
  have K20': "20 * K + 8 * n = (20 * m + rho) * 2 ^ 53" using K20 mr by simp
  have upper: "F < Suc m * 2 ^ 53"
    using err(1) K20' P48 rho by simp
  have lower: "m * 2 ^ 53 \<le> F"
  proof (cases "rho = 0")
    case False
    then show ?thesis using err(2) K20' P48 n by simp
  next
    case True
    then have "19 * n = 20 * m" using mr by simp
    then have "n = 20 * (n - m)" "m = 19 * (n - m)" by linarith+
    then obtain t where t: "n = 20 * t" "m = 19 * t" by blast
    show ?thesis
    proof (cases "t = 0")
      case True
      then show ?thesis using t by simp
    next
      case False
      have Kt: "K + 8 * t = 19 * t * 2 ^ 53" using K20 t(1) by simp
      have K53: "2 ^ 53 \<le> K" using Kt False by simp
      have L53: "53 < bit_length K"
      proof (rule ccontr)
        assume "\<not> 53 < bit_length K"
        then have "(2::nat) ^ bit_length K \<le> 2 ^ 53" by (intro power_increasing) simp_all
        then show False using bit_length_less[of K] K53 by linarith
      qed
      have "(2::nat) ^ bit_length K = 2 ^ (bit_length K - 53 + 53)" using L53 by simp
      also have "\<dots> = P * 2 ^ 53" unfolding P_def by (rule power_add)
      finally have KP: "K < P * 2 ^ 53" using bit_length_less[of K] by simp
      have dP: "2 * (8 * t) < P"
      proof (rule ccontr)
        assume "\<not> 2 * (8 * t) < P"
        then have "P * 2 ^ 53 \<le> 16 * t * 2 ^ 53" by simp
        then show False using KP Kt by simp
      qed
      have s53: "bit_length K - 53 \<le> 53" using L101 by simp
      have "(2::nat) ^ 53 = 2 ^ (53 - (bit_length K - 53) + (bit_length K - 53))" using s53 by simp
      also have "\<dots> = 2 ^ (53 - (bit_length K - 53)) * P" unfolding P_def by (rule power_add)
      finally have split53: "(2::nat) ^ 53 = 2 ^ (53 - (bit_length K - 53)) * P" .
      then have "K + 8 * t = (19 * t * 2 ^ (53 - (bit_length K - 53))) * 2 ^ (bit_length K - 53)"
        using Kt by (simp add: P_def)
      from round53_up[OF L53 this] dP False
      have "F = (19 * t * 2 ^ (53 - (bit_length K - 53))) * P" by (simp add: F_def P_def)
      also have "\<dots> = 19 * t * (2 ^ (53 - (bit_length K - 53)) * P)" by simp
      also have "2 ^ (53 - (bit_length K - 53)) * P = 2 ^ 53"
        using split53 by simp
      finally show ?thesis using t(2) by simp
    qed
  qed
  have "F div 2 ^ 53 = m"
    using lower upper by (intro div_nat_eqI) (simp_all add: mult.commute)
  then show ?thesis by (simp add: F_def K_def m_def n53)
qed

lemma int_times_095_exact:
  assumes "0 \<le> n" "n < 2 ^ 48"
  shows "int_times_095 n = (19 * n) div 20"
proof (cases "n = 0")
  case True
  then show ?thesis by (simp add: int_times_095_def)
next
  case False
  with assms have pos: "0 < n" by simp
  then have s: "sgn n = 1" by simp
  have "nat \<bar>n\<bar> < 2 ^ 48" using assms by (simp add: nat_less_iff)
  from times_095_nat[OF this]
  have "int (round53 (round53 (nat \<bar>n\<bar>) * mant_095) div 2 ^ 53) = int ((19 * nat \<bar>n\<bar>) div 20)"
    by simp
  also have "\<dots> = (19 * n) div 20" using pos by (simp add: zdiv_int)
  finally show ?thesis using pos by (simp add: int_times_095_def s)
qed

lemma wrap64_id: "- (2 ^ 63) \<le> x \<Longrightarrow> x < 2 ^ 63 \<Longrightarrow> wrap64 x = x"
  by (simp add: wrap64_def)

lemma go_quo_nonneg: "0 \<le> a \<Longrightarrow> 0 < b \<Longrightarrow> go_quo a b = a div b"
  by (simp add: go_quo_def)

lemma pacing_delay_exact:
  assumes A: "0 \<le> A" "A \<le> 1000000000" and tps: "0 < tps"
  shows "pacing_delay A tps = ((19 * (A * 1000 div tps)) div 20) * 1000000"
proof -
  define n where "n = A * 1000 div tps"
  have w1: "wrap64 (A * 1000) = A * 1000" using A by (intro wrap64_id) simp_all
  have q: "go_quo (A * 1000) tps = n" using A tps by (simp add: go_quo_nonneg n_def)
  have n0: "0 \<le> n" using A tps by (simp add: n_def pos_imp_zdiv_nonneg_iff)
  have "A * 1000 div tps \<le> A * 1000 div 1" using A tps by (intro zdiv_mono2) simp_all
  then have "n \<le> A * 1000" by (simp add: n_def)
  then have nb: "n \<le> 1000000000000" using A by simp
  then have n48: "n < 2 ^ 48" by simp
  have t: "int_times_095 n = (19 * n) div 20" using n0 n48 by (rule int_times_095_exact)
  have d0: "0 \<le> (19 * n) div 20" using n0 by simp
  have "(19 * n) div 20 \<le> n" using n0 by simp
  then have db: "(19 * n) div 20 \<le> 1000000000000" using nb by simp
  have w2: "wrap64 ((19 * n) div 20 * 1000000) = (19 * n) div 20 * 1000000"
    using d0 db by (intro wrap64_id) simp_all
  have "pacing_delay A tps = wrap64 (int_times_095 n * 1000000)"
    by (simp add: pacing_delay_def w1 q)
  also have "\<dots> = wrap64 ((19 * n) div 20 * 1000000)" by (simp only: t)
  also have "\<dots> = (19 * n) div 20 * 1000000" by (rule w2)
  finally show ?thesis by (simp add: n_def)
qed

subsection \<open>The client pool\<close>

lemma dial_clients_length:
  "dial_clients f cc i cls = (None, cls') \<Longrightarrow> i \<le> cc \<Longrightarrow>
   int (length cls') = int (length cls) + (cc - i)"
proof (induction f cc i cls rule: dial_clients.induct)
  case (1 factory clientCount i clients)
  show ?case
  proof (cases "i < clientCount")
    case False
    with 1(2) 1(3) show ?thesis by (simp add: dial_clients.simps)
  next
    case True
    obtain c err where f: "factory (length clients) = (c, err)" by (cases "factory (length clients)")
    from 1(2) True f have err: "err = None"
      by (cases err) (simp_all add: dial_clients.simps[of factory clientCount i])
    from 1(2) True f err
    have "dial_clients factory clientCount (i + 1) (clients @ [c]) = (None, cls')"
      by (simp add: dial_clients.simps[of factory clientCount i])
    from 1(1)[OF True f[symmetric] _ this] err True show ?thesis by simp
  qed
qed

lemma dial_clients_succeeds:
  "(\<forall>k. int k < int (length cls) + (cc - i) \<longrightarrow> snd (f k) = None) \<Longrightarrow>
   fst (dial_clients f cc i cls) = None"
proof (induction f cc i cls rule: dial_clients.induct)
  case (1 factory clientCount i clients)
  show ?case
  proof (cases "i < clientCount")
    case False
    then show ?thesis by (simp add: dial_clients.simps)
  next
    case True
    obtain c err where f: "factory (length clients) = (c, err)" by (cases "factory (length clients)")
    have "snd (factory (length clients)) = None" using 1(2) True by simp
    with f have err: "err = None" by simp
    have "fst (dial_clients factory clientCount (i + 1) (clients @ [c])) = None"
      using 1(1)[OF True f[symmetric]] err 1(2) by simp
    then show ?thesis using True f err by (simp add: dial_clients.simps[of factory clientCount i])
  qed
qed

lemma build_clients_length:
  assumes "build_clients cfg = Inr (None, clients)"
  shows "0 \<le> ClientCount cfg" and "int (length clients) = capped_clientCount cfg"
    and "capped_clientCount cfg = min (ClientCount cfg) clientCap"
proof -
  from assms have c: "0 \<le> capped_clientCount cfg"
    and d: "dial_clients (ClientFactory cfg) (capped_clientCount cfg) 0 [] = (None, clients)"
    by (auto simp: build_clients_def Let_def split: if_splits)
  show "capped_clientCount cfg = min (ClientCount cfg) clientCap"
    by (simp add: capped_clientCount_def)
  from c show "0 \<le> ClientCount cfg" by (simp add: capped_clientCount_def clientCap_def split: if_splits)
  from dial_clients_length[OF d c] show "int (length clients) = capped_clientCount cfg" by simp
qed

lemma build_clients_succeeds:
  assumes "0 \<le> ClientCount cfg"
    and "\<forall>k. int k < min (ClientCount cfg) clientCap \<longrightarrow> snd (ClientFactory cfg k) = None"
  shows "\<exists>clients. build_clients cfg = Inr (None, clients)"
proof -
  have c: "capped_clientCount cfg = min (ClientCount cfg) clientCap"
    by (simp add: capped_clientCount_def)
  have c0: "0 \<le> capped_clientCount cfg" using assms(1) by (simp add: c clientCap_def)
  have "fst (dial_clients (ClientFactory cfg) (capped_clientCount cfg) 0 []) = None"
    using assms(2) by (intro dial_clients_succeeds) (simp add: c)
  then show ?thesis using c0
    by (cases "dial_clients (ClientFactory cfg) (capped_clientCount cfg) 0 []")
       (simp add: build_clients_def Let_def)
qed

subsection \<open>The launch loop\<close>

lemma go_rem_nonneg: "0 \<le> a \<Longrightarrow> 0 < b \<Longrightarrow> go_rem a b = a mod b"
  by (simp add: go_rem_def go_quo_def minus_mult_div_eq_mod)

lemma length_assigned: "length (assigned cls cc d accs i) = length accs"
  by (induction accs arbitrary: i) auto

lemma nth_assigned:
  "j < length accs \<Longrightarrow> assigned cls cc d accs i ! j =
     \<lparr>w_acc = accs ! j, w_sleepTime = d, w_client = cls ! nat (go_rem (int (i + j)) cc)\<rparr>"
  by (induction accs arbitrary: i j) (auto simp: nth_Cons add.assoc add.left_commute split: nat.splits)

lemma launch_workers_prefix:
  "launch_workers waits cls cc sd d accs i ws evs = (r, ws', evs') \<Longrightarrow>
   \<exists>k\<le>length accs. ws' = ws @ take k (assigned cls cc d accs i) \<and>
      (r = Launched \<longrightarrow> k = length accs) \<and> (cc = 0 \<longrightarrow> k = 0) \<and>
      (\<forall>e. r = Launch_returns e \<longrightarrow> e \<noteq> None)"
proof (induction accs arbitrary: i ws evs)
  case Nil
  then show ?case by simp
next
  case (Cons acc rest)
  show ?case
  proof (cases "cc = 0 \<or> go_rem (int i) cc < 0 \<or> int (length cls) \<le> go_rem (int i) cc
                \<or> fst (waitFor (waits i) sd) \<noteq> None")
    case True
    then have "ws' = ws \<and> r \<noteq> Launched \<and> (\<forall>e. r = Launch_returns e \<longrightarrow> e \<noteq> None)"
      using Cons.prems by (auto simp: Let_def split: prod.splits if_splits)
    then show ?thesis by (intro exI[of _ 0]) simp
  next
    case False
    let ?w = "\<lparr>w_acc = acc, w_sleepTime = d, w_client = cls ! nat (go_rem (int i) cc)\<rparr>"
    from False Cons.prems
    have "\<exists>evs0. launch_workers waits cls cc sd d rest (Suc i) (ws @ [?w]) evs0 = (r, ws', evs')"
      by (auto simp: Let_def split: prod.splits if_splits)
    then obtain evs0 where
      "launch_workers waits cls cc sd d rest (Suc i) (ws @ [?w]) evs0 = (r, ws', evs')" by blast
    from Cons.IH[OF this] obtain k where k: "k \<le> length rest"
      "ws' = (ws @ [?w]) @ take k (assigned cls cc d rest (Suc i))"
      "r = Launched \<longrightarrow> k = length rest" "\<forall>e. r = Launch_returns e \<longrightarrow> e \<noteq> None"
      by blast
    show ?thesis using k False by (intro exI[of _ "Suc k"]) simp
  qed
qed

lemma launch_workers_panics:
  "launch_workers waits cls 0 sd d (acc # rest) i ws evs = (Launch_panics DivideByZero, ws, evs)"
  by simp

text \<open>What the launch loop did: before each worker it started it waited for the
  stagger; and when it returns an error, that is after one more such wait.\<close>

lemma launch_workers_trace:
  "launch_workers waits cls cc sd d accs i ws evs = (r, ws', evs') \<Longrightarrow>
   \<exists>new. ws' = ws @ new \<and>
     (evs' = evs @ launch_trace waits sd new i \<or>
      evs' = evs @ launch_trace waits sd new i @
               [Lv_waitFor sd (snd (waitFor (waits (i + length new)) sd))])"
proof (induction accs arbitrary: i ws evs)
  case Nil
  then show ?case by simp
next
  case (Cons acc rest)
  show ?case
  proof (cases "cc = 0 \<or> go_rem (int i) cc < 0 \<or> int (length cls) \<le> go_rem (int i) cc")
    case True
    then have "ws' = ws \<and> evs' = evs"
      using Cons.prems by (auto simp: Let_def split: prod.splits if_splits)
    then show ?thesis by (intro exI[of _ "[]"]) simp
  next
    case ok: False
    show ?thesis
    proof (cases "fst (waitFor (waits i) sd) \<noteq> None")
      case True
      then have "ws' = ws \<and> evs' = evs @ [Lv_waitFor sd (snd (waitFor (waits i) sd))]"
        using Cons.prems ok by (auto simp: Let_def split: prod.splits if_splits)
      then show ?thesis by (intro exI[of _ "[]"]) simp
    next
      case False
      let ?w = "\<lparr>w_acc = acc, w_sleepTime = d, w_client = cls ! nat (go_rem (int i) cc)\<rparr>"
      let ?e = "evs @ [Lv_waitFor sd (snd (waitFor (waits i) sd)), Lv_Go ?w]"
      from False ok Cons.prems
      have "launch_workers waits cls cc sd d rest (Suc i) (ws @ [?w]) ?e = (r, ws', evs')"
        by (auto simp: Let_def split: prod.splits if_splits)
      from Cons.IH[OF this] obtain new where n: "ws' = (ws @ [?w]) @ new"
        "evs' = ?e @ launch_trace waits sd new (Suc i) \<or>
         evs' = ?e @ launch_trace waits sd new (Suc i) @
                  [Lv_waitFor sd (snd (waitFor (waits (Suc i + length new)) sd))]"
        by blast
      show ?thesis using n by (intro exI[of _ "?w # new"]) auto
    qed
  qed
qed

lemma length_launch_trace: "length (launch_trace waits sd ws i) = 2 * length ws"
  by (induction ws arbitrary: i) auto

lemma nth_launch_trace:
  "j < length ws \<Longrightarrow>
   launch_trace waits sd ws i ! (2 * j) = Lv_waitFor sd (snd (waitFor (waits (i + j)) sd)) \<and>
   launch_trace waits sd ws i ! (2 * j + 1) = Lv_Go (ws ! j)"
proof (induction ws arbitrary: i j)
  case Nil
  then show ?case by simp
next
  case (Cons w ws)
  show ?case
  proof (cases j)
    case 0
    then show ?thesis by simp
  next
    case (Suc j')
    then have "j' < length ws" using Cons.prems by simp
    from Cons.IH[OF this, of "Suc i"] show ?thesis using Suc by simp
  qed
qed

lemma launch_trace_waits:
  "Lv_waitFor t w \<in> set (launch_trace waits sd ws i) \<Longrightarrow> t = sd"
  by (induction ws arbitrary: i) auto

lemma launch_workers_no_panic:
  "0 < cc \<Longrightarrow> int (length cls) = cc \<Longrightarrow>
   fst (launch_workers waits cls cc sd d accs i ws evs) \<noteq> Launch_panics p"
proof (induction accs arbitrary: i ws evs)
  case Nil
  then show ?case by simp
next
  case (Cons acc rest)
  have r: "go_rem (int i) cc = int i mod cc" using Cons.prems(1) by (intro go_rem_nonneg) simp_all
  have "0 \<le> int i mod cc" "int i mod cc < cc" using Cons.prems(1) by simp_all
  then have ok: "\<not> (go_rem (int i) cc < 0 \<or> int (length cls) \<le> go_rem (int i) cc)"
    using Cons.prems(2) r by simp
  show ?case
  proof (cases "fst (waitFor (waits i) sd) = None")
    case True
    then show ?thesis using ok Cons.prems(1) Cons.IH[OF Cons.prems]
      by (auto simp: Let_def split: prod.splits)
  next
    case False
    then show ?thesis using ok Cons.prems(1)
      by (auto simp: Let_def split: prod.splits)
  qed
qed

lemma launch_returns_waitFor:
  "launch_workers waits cls cc sd d accs i ws evs = (Launch_returns e, ws', evs') \<Longrightarrow>
   \<exists>j. e = fst (waitFor (waits j) sd) \<and> e \<noteq> None"
proof (induction accs arbitrary: i ws evs)
  case Nil
  then show ?case by simp
next
  case (Cons acc rest)
  show ?case
  proof (cases "fst (waitFor (waits i) sd) = None")
    case True
    with Cons.prems
    have "\<exists>w evs0. launch_workers waits cls cc sd d rest (Suc i) (ws @ [w]) evs0 = (Launch_returns e, ws', evs')"
      by (auto simp: Let_def split: prod.splits if_splits)
    then show ?thesis using Cons.IH by blast
  next
    case False
    with Cons.prems have "e = fst (waitFor (waits i) sd)"
      by (auto simp: Let_def split: prod.splits if_splits)
    then show ?thesis using False by blast
  qed
qed

subsection \<open>runBot\<close>

lemma waitFor_cases:
  "waitFor s t = (err, waited) \<Longrightarrow>
     0 \<le> waited \<and> waited \<le> max 0 t \<and>
     (err = None \<longrightarrow> waited = max 0 t) \<and>
     (\<forall>e. err = Some e \<longrightarrow> (\<exists>c. ctx_done_after s = Some (c, e) \<and> waited = max 0 c))"
  by (auto simp: waitFor_def Let_def split: option.splits prod.splits if_splits)

lemma nextTransfer_Inr:
  "Accounts cfg \<noteq> [] \<Longrightarrow>
   nextTransfer cfg n = Inr (Address (Accounts cfg ! (n mod length (Accounts cfg))), Amount cfg)"
  by (simp add: nextTransfer_def Let_def)

lemma runBot_iter_not_nil: "fst (runBot_iter cfg acc d cl obs) \<noteq> Returned None"
  by (auto simp: runBot_iter_def Let_def split: sum.splits prod.splits option.splits if_splits)

lemma runBot_Cons_Running:
  "fst (runBot_iter cfg acc d cl o1) = Running \<Longrightarrow>
   runBot cfg acc d cl (o1 # rest) =
     (fst (runBot cfg acc d cl rest), snd (runBot_iter cfg acc d cl o1) @ snd (runBot cfg acc d cl rest))"
  by (cases "runBot_iter cfg acc d cl o1") (auto split: prod.splits)

lemma runBot_Cons_stop:
  "fst (runBot_iter cfg acc d cl o1) \<noteq> Running \<Longrightarrow>
   runBot cfg acc d cl (o1 # rest) = runBot_iter cfg acc d cl o1"
  by (cases "runBot_iter cfg acc d cl o1") (auto split: bot_result.splits)

lemma runBot_not_nil: "fst (runBot cfg acc d cl obs) \<noteq> Returned None"
proof (induction obs)
  case Nil
  then show ?case by simp
next
  case (Cons o1 rest)
  show ?case
  proof (cases "fst (runBot_iter cfg acc d cl o1) = Running")
    case True
    then show ?thesis using Cons by (simp add: runBot_Cons_Running del: runBot.simps)
  next
    case False
    then show ?thesis using runBot_iter_not_nil[of cfg acc d cl o1]
      by (simp add: runBot_Cons_stop del: runBot.simps)
  qed
qed

lemma runBot_iter_no_panic:
  "Accounts cfg \<noteq> [] \<Longrightarrow> fst (runBot_iter cfg acc d cl obs) \<noteq> Panicked p"
  by (auto simp: runBot_iter_def nextTransfer_Inr Let_def split: prod.splits option.splits if_splits)

lemma runBot_no_panic:
  "Accounts cfg \<noteq> [] \<Longrightarrow> fst (runBot cfg acc d cl obs) \<noteq> Panicked p"
proof (induction obs)
  case Nil
  then show ?case by simp
next
  case (Cons o1 rest)
  show ?case
  proof (cases "fst (runBot_iter cfg acc d cl o1) = Running")
    case True
    then show ?thesis using Cons by (simp add: runBot_Cons_Running del: runBot.simps)
  next
    case False
    then show ?thesis using runBot_iter_no_panic[OF Cons.prems, of acc d cl o1 p]
      by (simp add: runBot_Cons_stop del: runBot.simps)
  qed
qed

lemma runBot_iter_cancel:
  "iter_cancel_only obs \<Longrightarrow> fst (runBot_iter cfg acc d cl obs) = Returned r \<Longrightarrow>
   \<exists>e. r = Some e \<and> is_Canceled e"
  by (auto simp: runBot_iter_def iter_cancel_only_def cancel_or_nil_def select_cancel_only_def
        Let_def dest!: waitFor_cases split: sum.splits prod.splits option.splits if_splits)

lemma runBot_cancel:
  "list_all iter_cancel_only obs \<Longrightarrow> fst (runBot cfg acc d cl obs) = Returned r \<Longrightarrow>
   \<exists>e. r = Some e \<and> is_Canceled e"
proof (induction obs)
  case Nil
  then show ?case by simp
next
  case (Cons o1 rest)
  show ?case
  proof (cases "fst (runBot_iter cfg acc d cl o1) = Running")
    case True
    then have "fst (runBot cfg acc d cl rest) = Returned r"
      using Cons.prems(2) by (simp add: runBot_Cons_Running del: runBot.simps)
    then show ?thesis using Cons by simp
  next
    case False
    then have "fst (runBot_iter cfg acc d cl o1) = Returned r"
      using Cons.prems(2) by (simp add: runBot_Cons_stop del: runBot.simps)
    then show ?thesis using runBot_iter_cancel[of o1 cfg acc d cl r] Cons.prems(1) by simp
  qed
qed

lemma runBot_iter_sends:
  "Ev_Send a c rcp v \<in> set (snd (runBot_iter cfg acc d cl obs)) \<Longrightarrow> a = acc \<and> c = cl"
  by (auto simp: runBot_iter_def Let_def split: sum.splits prod.splits option.splits if_splits)

lemma runBot_sends:
  "Ev_Send a c rcp v \<in> set (snd (runBot cfg acc d cl obs)) \<Longrightarrow> a = acc \<and> c = cl"
proof (induction obs)
  case Nil
  then show ?case by simp
next
  case (Cons o1 rest)
  show ?case
  proof (cases "fst (runBot_iter cfg acc d cl o1) = Running")
    case True
    then show ?thesis using Cons runBot_iter_sends[of a c rcp v cfg acc d cl o1]
      by (auto simp: runBot_Cons_Running simp del: runBot.simps)
  next
    case False
    then show ?thesis using Cons.prems runBot_iter_sends[of a c rcp v cfg acc d cl o1]
      by (simp add: runBot_Cons_stop del: runBot.simps)
  qed
qed

text \<open>An iteration whose \<open>Send()\<close> fails is the last one.\<close>

lemma runBot_iter_send_fails:
  "send_err obs \<noteq> None \<Longrightarrow> fst (runBot_iter cfg acc d cl obs) \<noteq> Running"
  by (auto simp: runBot_iter_def Let_def split: sum.splits prod.splits option.splits)

lemma runBot_honours_cancel:
  "list_all (honours_cancel T) obs \<Longrightarrow> list_ex (\<lambda>o1. T \<le> now_sent o1) obs \<Longrightarrow>
   Accounts cfg \<noteq> [] \<Longrightarrow>
   \<exists>e. fst (runBot cfg acc d cl obs) = Returned (Some e) \<and> is_Canceled e"
proof (induction obs)
  case Nil
  then show ?case by simp
next
  case (Cons o1 rest)
  from Cons.prems(1) have hr: "list_all (honours_cancel T) rest" and "honours_cancel T o1"
    by simp_all
  then have h: "iter_cancel_only o1" "T \<le> now_sent o1 \<longrightarrow> send_err o1 \<noteq> None"
    by (simp_all add: honours_cancel_def)
  show ?case
  proof (cases "fst (runBot_iter cfg acc d cl o1)")
    case Running
    then have "\<not> T \<le> now_sent o1" using h(2) runBot_iter_send_fails[of o1 cfg acc d cl] by blast
    then have "list_ex (\<lambda>o1. T \<le> now_sent o1) rest" using Cons.prems(2) by simp
    from Cons.IH[OF hr this Cons.prems(3)] show ?thesis
      using Running by (simp add: runBot_Cons_Running del: runBot.simps)
  next
    case (Returned r)
    from runBot_iter_cancel[OF h(1) Returned] obtain e where "r = Some e" "is_Canceled e" by blast
    then show ?thesis using Returned by (simp add: runBot_Cons_stop del: runBot.simps)
  next
    case (Panicked p)
    then show ?thesis using runBot_iter_no_panic[OF Cons.prems(3), of acc d cl o1 p] by simp
  qed
qed

lemma runBot_iter_undisturbed:
  "undisturbed obs \<Longrightarrow> Accounts cfg \<noteq> [] \<Longrightarrow> fst (runBot_iter cfg acc d cl obs) = Running"
  by (auto simp: runBot_iter_def nextTransfer_Inr undisturbed_def waitFor_def Let_def
        split: prod.splits)

lemma runBot_undisturbed:
  "list_all undisturbed obs \<Longrightarrow> Accounts cfg \<noteq> [] \<Longrightarrow> fst (runBot cfg acc d cl obs) = Running"
proof (induction obs)
  case Nil
  then show ?case by simp
next
  case (Cons o1 rest)
  then have "fst (runBot_iter cfg acc d cl o1) = Running" by (simp add: runBot_iter_undisturbed)
  then show ?case using Cons by (simp add: runBot_Cons_Running del: runBot.simps)
qed

subsection \<open>Start\<close>

lemma assigned_sleepTime: "wk \<in> set (assigned cls cc d accs i) \<Longrightarrow> w_sleepTime wk = d"
  by (induction accs arbitrary: i) auto

text \<open>No worker panics when there is an account.\<close>

lemma worker_result_no_panic:
  "Accounts cfg \<noteq> [] \<Longrightarrow> worker_result world cfg ws i \<noteq> Panicked p"
  by (simp add: worker_result_def runBot_no_panic)

lemma worker_panics_Nil: "Accounts cfg \<noteq> [] \<Longrightarrow> worker_panics world cfg ws = []"
  by (auto simp: worker_panics_def worker_result_no_panic split: bot_result.splits)

lemma Start_launch:
  assumes "build_clients cfg = Inr (None, clients)" and "TransactionsPerSecond cfg \<noteq> 0"
    and "Accounts cfg \<noteq> []"
  shows "Start world cfg =
     (case launch_workers (launch_wait world) clients (capped_clientCount cfg)
             (go_quo (pacing_delay (int (length (Accounts cfg))) (TransactionsPerSecond cfg))
                (int (length (Accounts cfg))))
             (pacing_delay (int (length (Accounts cfg))) (TransactionsPerSecond cfg))
             (Accounts cfg) 0 [] [] of
        (Launch_panics p, ws, evs) \<Rightarrow> (Panics p, ws, evs)
      | (Launch_returns e, ws, evs) \<Rightarrow> (Returns e, ws, evs)
      | (Launched, ws, evs) \<Rightarrow>
          (case group_Wait [0..<length ws] (worker_returns world cfg ws) of
             None \<Rightarrow> (Blocks, ws, evs)
           | Some r \<Rightarrow> (Returns r, ws, evs)))"
  using assms
  by (simp add: Start_def Let_def worker_panics_Nil split: prod.splits launch_result.splits)

lemma Start_no_launch:
  assumes "\<not> (\<exists>clients. build_clients cfg = Inr (None, clients)) \<or> TransactionsPerSecond cfg = 0
      \<or> Accounts cfg = []"
  shows "snd (Start world cfg) = ([], [])"
    and "fst (Start world cfg) \<noteq> Blocks"
    and "fst (Start world cfg) \<noteq> Returns None"
  using assms by (auto simp: Start_def Let_def split: sum.splits prod.splits if_splits)

lemma Start_workers:
  "fst (snd (Start world cfg)) = [] \<or>
   (\<exists>clients k. build_clients cfg = Inr (None, clients) \<and> capped_clientCount cfg \<noteq> 0 \<and>
      Accounts cfg \<noteq> [] \<and> k \<le> length (Accounts cfg) \<and>
      fst (snd (Start world cfg)) =
        take k (assigned clients (capped_clientCount cfg)
                  (pacing_delay (int (length (Accounts cfg))) (TransactionsPerSecond cfg))
                  (Accounts cfg) 0))"
proof (cases "(\<exists>clients. build_clients cfg = Inr (None, clients)) \<and> TransactionsPerSecond cfg \<noteq> 0
      \<and> Accounts cfg \<noteq> []")
  case False
  then show ?thesis using Start_no_launch(1)[of cfg world] by auto
next
  case True
  then obtain clients where b: "build_clients cfg = Inr (None, clients)"
    and t: "TransactionsPerSecond cfg \<noteq> 0" and a: "Accounts cfg \<noteq> []" by blast
  let ?A = "int (length (Accounts cfg))"
  let ?d = "pacing_delay ?A (TransactionsPerSecond cfg)"
  obtain r ws evs where l: "launch_workers (launch_wait world) clients (capped_clientCount cfg)
        (go_quo ?d ?A) ?d (Accounts cfg) 0 [] [] = (r, ws, evs)"
    by (cases "launch_workers (launch_wait world) clients (capped_clientCount cfg)
        (go_quo ?d ?A) ?d (Accounts cfg) 0 [] []") auto
  from launch_workers_prefix[OF l] obtain k where k: "k \<le> length (Accounts cfg)"
    "ws = take k (assigned clients (capped_clientCount cfg) ?d (Accounts cfg) 0)"
    "capped_clientCount cfg = 0 \<longrightarrow> k = 0"
    by auto
  have s: "fst (snd (Start world cfg)) = ws" unfolding Start_launch[OF b t a] l
    by (simp split: launch_result.splits option.splits)
  show ?thesis
  proof (cases "k = 0")
    case True
    then show ?thesis using s k(2) by simp
  next
    case False
    then show ?thesis using s k b a by blast
  qed
qed

text \<open>What the launch loop of \<open>Start\<close> did: a wait of \<open>startDelay\<close> before each worker.\<close>

lemma Start_trace:
  "\<exists>tl. snd (snd (Start world cfg)) =
     launch_trace (launch_wait world)
       (go_quo (pacing_delay (int (length (Accounts cfg))) (TransactionsPerSecond cfg))
          (int (length (Accounts cfg))))
       (fst (snd (Start world cfg))) 0 @ tl
   \<and> (tl = [] \<or> (\<exists>w. tl = [Lv_waitFor
          (go_quo (pacing_delay (int (length (Accounts cfg))) (TransactionsPerSecond cfg))
             (int (length (Accounts cfg)))) w]))"
proof (cases "(\<exists>clients. build_clients cfg = Inr (None, clients)) \<and> TransactionsPerSecond cfg \<noteq> 0
      \<and> Accounts cfg \<noteq> []")
  case False
  then have "snd (Start world cfg) = ([], [])" using Start_no_launch(1)[of cfg world] by blast
  then show ?thesis by simp
next
  case True
  then obtain clients where b: "build_clients cfg = Inr (None, clients)"
    and t: "TransactionsPerSecond cfg \<noteq> 0" and a: "Accounts cfg \<noteq> []" by blast
  let ?A = "int (length (Accounts cfg))"
  let ?d = "pacing_delay ?A (TransactionsPerSecond cfg)"
  obtain r ws evs where l: "launch_workers (launch_wait world) clients (capped_clientCount cfg)
        (go_quo ?d ?A) ?d (Accounts cfg) 0 [] [] = (r, ws, evs)"
    by (cases "launch_workers (launch_wait world) clients (capped_clientCount cfg)
        (go_quo ?d ?A) ?d (Accounts cfg) 0 [] []") auto
  have s: "snd (Start world cfg) = (ws, evs)" unfolding Start_launch[OF b t a] l
    by (simp split: launch_result.splits option.splits)
  from launch_workers_trace[OF l]
  have "evs = launch_trace (launch_wait world) (go_quo ?d ?A) ws 0 \<or>
        evs = launch_trace (launch_wait world) (go_quo ?d ?A) ws 0 @
                [Lv_waitFor (go_quo ?d ?A) (snd (waitFor (launch_wait world (length ws)) (go_quo ?d ?A)))]"
    by auto
  then show ?thesis unfolding s by auto
qed

lemma g_err_group_after_mem:
  "g_err (group_after rs) = Some e \<Longrightarrow> Some e \<in> set rs"
proof (rule ccontr)
  assume g: "g_err (group_after rs) = Some e" and n: "Some e \<notin> set rs"
  have "\<not> (\<forall>r\<in>set rs. r = None)" using g group_after_None_iff[of rs] by auto
  then have "\<exists>r\<in>set rs. r \<noteq> None" by blast
  then obtain pre r post where rs: "rs = pre @ r # post" and r: "r \<noteq> None"
    and pre: "\<forall>p\<in>set pre. \<not> p \<noteq> None"
    using split_list_first_prop[of rs "\<lambda>r. r \<noteq> None"] by blast
  from r obtain e' where e': "r = Some e'" by auto
  with rs pre have "group_after rs = \<lparr>g_err = Some e', g_canceled = True\<rparr>"
    using group_after_first_error[of pre e' post] by simp
  with g have "e' = e" by simp
  with rs e' n show False by simp
qed

lemma worker_returns_mem:
  "(i, r) \<in> set (worker_returns world cfg ws) \<Longrightarrow>
   i < length ws \<and>
   fst (runBot cfg (w_acc (ws ! i)) (w_sleepTime (ws ! i)) (w_client (ws ! i)) (worker_obs world i))
     = Returned r"
  by (auto simp: worker_returns_def worker_result_def split: bot_result.splits if_splits)

lemma worker_returns_has:
  "n \<in> set (return_order world) \<Longrightarrow> worker_result world cfg ws n = Returned r \<Longrightarrow>
   (n, r) \<in> set (worker_returns world cfg ws)"
  by (auto simp: worker_returns_def intro!: bexI[of _ n])

lemma Start_Wait_result:
  assumes "group_Wait [0..<length ws] (worker_returns world cfg ws) = Some r" and "ws \<noteq> []"
  shows "\<exists>e i. r = Some e \<and> (i, Some e) \<in> set (worker_returns world cfg ws)"
proof -
  let ?rs = "worker_returns world cfg ws"
  from assms(1) have all: "list_all (\<lambda>n. n \<in> set (map fst ?rs)) [0..<length ws]"
    and r: "r = g_err (group_after (map snd ?rs))"
    by (auto simp: group_Wait_def split: if_splits)
  from all assms(2) have "0 \<in> set (map fst ?rs)" by (simp add: list_all_iff)
  then obtain r0 where r0: "(0, r0) \<in> set ?rs" by auto
  from worker_returns_mem[OF this] runBot_not_nil have "r0 \<noteq> None" by metis
  then have "\<not> (\<forall>x\<in>set (map snd ?rs). x = None)" using r0 by force
  then have "g_err (group_after (map snd ?rs)) \<noteq> None" using group_after_None_iff by blast
  then obtain e where e: "r = Some e" using r by auto
  then have "Some e \<in> set (map snd ?rs)" using r g_err_group_after_mem by metis
  then show ?thesis using e by auto
qed

text \<open>Where the value \<open>Start\<close> returns comes from: the client factory, a \<open>waitFor\<close> of the
  launch loop, or a worker, through \<open>group.Wait()\<close>.\<close>

lemma Start_Returns:
  assumes "fst (Start world cfg) = Returns r"
  shows "(\<exists>e cls. build_clients cfg = Inr (Some e, cls) \<and> r = Some e)
       \<or> (\<exists>e i. r = Some e \<and> fst (waitFor (launch_wait world i)
             (go_quo (pacing_delay (int (length (Accounts cfg))) (TransactionsPerSecond cfg))
                (int (length (Accounts cfg))))) = Some e)
       \<or> (\<exists>e i. r = Some e \<and>
             (i, Some e) \<in> set (worker_returns world cfg (fst (snd (Start world cfg)))))"
proof (cases "(\<exists>clients. build_clients cfg = Inr (None, clients)) \<and> TransactionsPerSecond cfg \<noteq> 0
      \<and> Accounts cfg \<noteq> []")
  case False
  then have "\<exists>e cls. build_clients cfg = Inr (Some e, cls) \<and> r = Some e"
    using assms by (auto simp: Start_def Let_def split: sum.splits prod.splits if_splits)
  then show ?thesis by blast
next
  case True
  then obtain clients where b: "build_clients cfg = Inr (None, clients)"
    and t: "TransactionsPerSecond cfg \<noteq> 0" and a: "Accounts cfg \<noteq> []" by blast
  let ?A = "int (length (Accounts cfg))"
  let ?d = "pacing_delay ?A (TransactionsPerSecond cfg)"
  obtain lr ws evs where l: "launch_workers (launch_wait world) clients (capped_clientCount cfg)
        (go_quo ?d ?A) ?d (Accounts cfg) 0 [] [] = (lr, ws, evs)"
    by (cases "launch_workers (launch_wait world) clients (capped_clientCount cfg)
        (go_quo ?d ?A) ?d (Accounts cfg) 0 [] []") auto
  note S = Start_launch[OF b t a, of world, unfolded l]
  show ?thesis
  proof (cases lr)
    case (Launch_panics p)
    then show ?thesis using S assms by simp
  next
    case (Launch_returns e)
    then have "r = e" using S assms by simp
    with launch_returns_waitFor[OF l[unfolded Launch_returns]] show ?thesis by auto
  next
    case Launched
    from launch_workers_prefix[OF l] Launched
    have "length ws = length (Accounts cfg)" by (auto simp: length_assigned)
    with a have ne: "ws \<noteq> []" by auto
    from S Launched assms have w: "group_Wait [0..<length ws] (worker_returns world cfg ws) = Some r"
      and s: "fst (snd (Start world cfg)) = ws"
      by (auto split: option.splits)
    from Start_Wait_result[OF w ne] s show ?thesis by auto
  qed
qed

lemma Start_Blocks:
  assumes "fst (Start world cfg) = Blocks"
  shows "\<exists>i<length (fst (snd (Start world cfg))).
           worker_result world cfg (fst (snd (Start world cfg))) i = Running
           \<or> i \<notin> set (return_order world)"
proof (cases "(\<exists>clients. build_clients cfg = Inr (None, clients)) \<and> TransactionsPerSecond cfg \<noteq> 0
      \<and> Accounts cfg \<noteq> []")
  case False
  then show ?thesis using Start_no_launch(2)[of cfg world] assms by blast
next
  case True
  then obtain clients where b: "build_clients cfg = Inr (None, clients)"
    and t: "TransactionsPerSecond cfg \<noteq> 0" and a: "Accounts cfg \<noteq> []" by blast
  let ?A = "int (length (Accounts cfg))"
  let ?d = "pacing_delay ?A (TransactionsPerSecond cfg)"
  obtain lr ws evs where l: "launch_workers (launch_wait world) clients (capped_clientCount cfg)
        (go_quo ?d ?A) ?d (Accounts cfg) 0 [] [] = (lr, ws, evs)"
    by (cases "launch_workers (launch_wait world) clients (capped_clientCount cfg)
        (go_quo ?d ?A) ?d (Accounts cfg) 0 [] []") auto
  note S = Start_launch[OF b t a, of world, unfolded l]
  from S assms have s: "fst (snd (Start world cfg)) = ws"
    and w: "group_Wait [0..<length ws] (worker_returns world cfg ws) = None"
    by (auto split: launch_result.splits option.splits)
  from w have "\<not> list_all (\<lambda>n. n \<in> set (map fst (worker_returns world cfg ws))) [0..<length ws]"
    by (auto simp: group_Wait_def split: if_splits)
  then obtain n where n: "n < length ws" "n \<notin> set (map fst (worker_returns world cfg ws))"
    by (auto simp: list_all_iff)
  have "worker_result world cfg ws n = Running \<or> n \<notin> set (return_order world)"
  proof (rule ccontr)
    assume c: "\<not> (worker_result world cfg ws n = Running \<or> n \<notin> set (return_order world))"
    then obtain r where "worker_result world cfg ws n = Returned r"
      using worker_result_no_panic[OF a, of world ws n]
      by (cases "worker_result world cfg ws n") auto
    with c have "n \<in> set (return_order world)" "worker_result world cfg ws n = Returned r" by auto
    from worker_returns_has[OF this] have "n \<in> fst ` set (worker_returns world cfg ws)" by force
    with n(2) show False by simp
  qed
  with n(1) s show ?thesis by auto
qed

text \<open>With a pool of the size asked for, a rate and accounts, \<open>Start\<close> does not panic.\<close>

lemma Start_no_panic:
  assumes b: "build_clients cfg = Inr (None, pool)" and t: "TransactionsPerSecond cfg \<noteq> 0"
    and a: "Accounts cfg \<noteq> []" and c: "0 < ClientCount cfg"
  shows "fst (Start world cfg) \<noteq> Panics p"
proof -
  note l = build_clients_length[OF b]
  have c0: "0 < capped_clientCount cfg" using c by (simp add: capped_clientCount_def clientCap_def)
  let ?l = "launch_workers (launch_wait world) pool (capped_clientCount cfg)
           (go_quo (pacing_delay (int (length (Accounts cfg))) (TransactionsPerSecond cfg))
              (int (length (Accounts cfg))))
           (pacing_delay (int (length (Accounts cfg))) (TransactionsPerSecond cfg))
           (Accounts cfg) 0 [] []"
  have np: "fst ?l \<noteq> Launch_panics p" for p using c0 l(2) by (intro launch_workers_no_panic)
  show ?thesis unfolding Start_launch[OF b t a]
    using np by (cases ?l) (auto split: launch_result.splits option.splits)
qed

subsection \<open>The example runs\<close>

lemma ex_pacing_delay: "pacing_delay 3 5 = 570000000" "pacing_delay 10 5 = 1900000000"
  by (simp_all add: pacing_delay_def wrap64_def go_quo_def int_times_095_def round53_def
        bit_length.simps mant_095_def Let_def)

lemma ex_build_clients: "build_clients ex_cfg = Inr (None, [7, 8])"
  by (simp add: build_clients_def capped_clientCount_def clientCap_def ex_cfg_def
        dial_clients.simps Let_def)

lemma ex_runBot:
  "runBot ex_cfg acc 570000000 cl [ex_iter_on_time, ex_iter_cancelled] =
     (Returned (Some Canceled),
      [Ev_Send acc cl ''0xd2'' 10000000, Ev_WaitMined, Ev_waitFor 469999900 469999900,
       Ev_Send acc cl ''0xd2'' 10000000, Ev_WaitMined, Ev_waitFor 469999900 5000])"
  by (simp add: runBot_iter_def nextTransfer_def waitFor_def ex_cfg_def ex_accounts_def
        ex_iter_on_time_def ex_iter_cancelled_def timer_fires_def ctx_cancelled_def Let_def)

lemma ex_runBot_cancel:
  "runBot ex_cfg acc 570000000 cl [ex_iter_tie, ex_iter_send_cancelled] =
     (Returned (Some (Errorf ''Error sending transaction'' Canceled)),
      [Ev_Send acc cl ''0xd2'' 10000000, Ev_WaitMined, Ev_waitFor 469999900 469999900,
       Ev_Send acc cl ''0xd3'' 10000000])"
  by (simp add: runBot_iter_def nextTransfer_def waitFor_def ex_cfg_def ex_accounts_def
        ex_iter_tie_def ex_iter_send_cancelled_def timer_fires_def Let_def)

lemma ex_launch_workers:
  "launch_workers (\<lambda>i. timer_fires) [7, 8] 2 190000000 570000000 ex_accounts 0 [] [] =
     (Launched, [ex_w1, ex_w2, ex_w3], ex_launch)"
  by (simp add: ex_accounts_def timer_fires_def waitFor_def go_rem_def go_quo_def Let_def
        ex_w1_def ex_w2_def ex_w3_def ex_launch_def)

lemma ex_Start_Wait:
  assumes "launch_wait world = (\<lambda>i. timer_fires)"
  shows "Start world ex_cfg =
     (case group_Wait [0..<length [ex_w1, ex_w2, ex_w3]]
             (worker_returns world ex_cfg [ex_w1, ex_w2, ex_w3]) of
        None \<Rightarrow> (Blocks, [ex_w1, ex_w2, ex_w3], ex_launch)
      | Some r \<Rightarrow> (Returns r, [ex_w1, ex_w2, ex_w3], ex_launch))"
proof -
  have a: "Accounts ex_cfg = ex_accounts" "TransactionsPerSecond ex_cfg = 5"
    "capped_clientCount ex_cfg = 2" "length ex_accounts = 3"
    by (simp_all add: ex_cfg_def ex_accounts_def capped_clientCount_def clientCap_def)
  have ne: "Accounts ex_cfg \<noteq> []" by (simp add: a ex_accounts_def)
  have q: "go_quo 570000000 3 = 190000000" by (simp add: go_quo_def)
  show ?thesis
    unfolding Start_launch[OF ex_build_clients _ ne, of world, unfolded a, simplified]
    by (simp add: ex_pacing_delay q assms ex_launch_workers)
qed

lemma ex_Start:
  "Start ex_world ex_cfg = (Returns (Some Canceled), [ex_w1, ex_w2, ex_w3], ex_launch)"
proof -
  have l: "launch_wait ex_world = (\<lambda>i. timer_fires)" by (simp add: ex_world_def)
  have r: "worker_returns ex_world ex_cfg [ex_w1, ex_w2, ex_w3]
      = [(1, Some Canceled), (0, Some Canceled), (2, Some Canceled)]"
    by (simp add: worker_returns_def worker_result_def ex_world_def ex_runBot
          ex_w1_def ex_w2_def ex_w3_def del: runBot.simps)
  show ?thesis unfolding ex_Start_Wait[OF l] r
    by (simp add: group_Wait_def group_after_def task_returns_def group_WithContext_def)
qed

lemma ex_Start_cancel:
  "Start ex_world_cancel ex_cfg =
     (Returns (Some (Errorf ''Error sending transaction'' Canceled)), [ex_w1, ex_w2, ex_w3], ex_launch)"
proof -
  have l: "launch_wait ex_world_cancel = (\<lambda>i. timer_fires)" by (simp add: ex_world_cancel_def)
  have r: "worker_returns ex_world_cancel ex_cfg [ex_w1, ex_w2, ex_w3]
      = [(2, Some (Errorf ''Error sending transaction'' Canceled)),
         (0, Some (Errorf ''Error sending transaction'' Canceled)),
         (1, Some (Errorf ''Error sending transaction'' Canceled))]"
    by (simp add: worker_returns_def worker_result_def ex_world_cancel_def ex_runBot_cancel
          ex_w1_def ex_w2_def ex_w3_def del: runBot.simps)
  show ?thesis unfolding ex_Start_Wait[OF l] r
    by (simp add: group_Wait_def group_after_def task_returns_def group_WithContext_def)
qed

lemma ex_Start_Blocks:
  "Start (ex_world\<lparr>return_order := [0]\<rparr>) ex_cfg = (Blocks, [ex_w1, ex_w2, ex_w3], ex_launch)"
proof -
  have l: "launch_wait (ex_world\<lparr>return_order := [0]\<rparr>) = (\<lambda>i. timer_fires)"
    by (simp add: ex_world_def)
  have r: "worker_returns (ex_world\<lparr>return_order := [0]\<rparr>) ex_cfg [ex_w1, ex_w2, ex_w3]
      = [(0, Some Canceled)]"
    by (simp add: worker_returns_def worker_result_def ex_world_def ex_runBot
          ex_w1_def ex_w2_def ex_w3_def del: runBot.simps)
  show ?thesis unfolding ex_Start_Wait[OF l] r by (simp add: group_Wait_def)
qed

subsection \<open>The claims about the load bot\<close>

text \<open>
  Claim C3. For \<open>A\<close> accounts (up to \<open>10^9\<close>) and a positive rate \<open>tps\<close>, the delay per account
  is \<open>d\<close> milliseconds with \<open>d = \<lfloor>19 n / 20\<rfloor>\<close> and \<open>n = \<lfloor>1000 A / tps\<rfloor>\<close>, the float64
  product with 0.95 being exact on this range; hence \<open>950 A / tps - 2 < d \<le> 950 A / tps\<close>,
  which is \<open>(A * 1000 / TPS) * 0.95\<close> within rounding. The stagger is the delay divided by
  \<open>A\<close>, rounded down to a nanosecond. For 10 accounts at 5 transactions per second the
  delay is 1900 ms and the stagger 190 ms. Every worker \<open>Start\<close> starts is given this
  delay. And \<open>Start\<close> uses this stagger: before it starts worker \<open>i\<close> it calls \<open>waitFor\<close>
  with the stagger of its configuration, so that its launch loop is, for each worker in
  turn, that wait (events \<open>2i\<close>) and then \<open>group.Go\<close> of the worker (event \<open>2i + 1\<close>); it
  calls \<open>waitFor\<close> with no other duration; and a wait that no cancellation interrupts
  lasts the stagger.
\<close>

theorem pacing_parameters:
  assumes "0 < tps" and "0 \<le> A" and "A \<le> 1000000000"
  shows "pacing_delay A tps = (19 * (A * 1000 div tps) div 20) * 1000000
       \<and> 20 * (19 * (A * 1000 div tps) div 20) * tps \<le> 19000 * A
       \<and> 19000 * A < 20 * (19 * (A * 1000 div tps) div 20 + 2) * tps
       \<and> (0 < A \<longrightarrow> go_quo (pacing_delay A tps) A = pacing_delay A tps div A)
       \<and> pacing_delay 10 5 = 1900 * 1000000
       \<and> go_quo (pacing_delay 10 5) 10 = 190 * 1000000
       \<and> (\<forall>wk\<in>set (fst (snd (Start world cfg))).
             w_sleepTime wk = pacing_delay (int (length (Accounts cfg))) (TransactionsPerSecond cfg))
       \<and> (let stagger = go_quo (pacing_delay (int (length (Accounts cfg))) (TransactionsPerSecond cfg))
                           (int (length (Accounts cfg)));
               workers = fst (snd (Start world cfg));
               launch = snd (snd (Start world cfg))
          in (\<forall>i<length workers.
                 2 * i + 1 < length launch \<and>
                 launch ! (2 * i) = Lv_waitFor stagger (snd (waitFor (launch_wait world i) stagger)) \<and>
                 launch ! (2 * i + 1) = Lv_Go (workers ! i))
           \<and> (\<forall>t w. Lv_waitFor t w \<in> set launch \<longrightarrow> t = stagger)
           \<and> (\<forall>i. ctx_done_after (launch_wait world i) = None \<longrightarrow>
                 snd (waitFor (launch_wait world i) stagger) = max 0 stagger))"
proof -
  define n where "n = A * 1000 div tps"
  define d where "d = 19 * n div 20"
  define X where "X = n * tps"
  define Y where "Y = d * tps"
  have e: "pacing_delay A tps = d * 1000000"
    unfolding d_def n_def using assms by (intro pacing_delay_exact) simp_all
  have n0: "0 \<le> n" using assms by (simp add: n_def pos_imp_zdiv_nonneg_iff)
  have d0: "0 \<le> d" using n0 by (simp add: d_def)
  define m1 where "m1 = A * 1000 mod tps"
  define m2 where "m2 = 19 * n mod 20"
  have "tps * (A * 1000 div tps) + A * 1000 mod tps = A * 1000" by (rule mult_div_mod_eq)
  then have x: "X + m1 = 1000 * A" by (simp add: X_def n_def m1_def mult.commute)
  have m1: "0 \<le> m1" "m1 < tps" using assms(1) by (simp_all add: m1_def)
  have X: "X \<le> 1000 * A" "1000 * A < X + tps" using x m1 by linarith+
  have "20 * (19 * n div 20) + 19 * n mod 20 = 19 * n" by (rule mult_div_mod_eq)
  then have y: "20 * d + m2 = 19 * n" by (simp add: d_def m2_def)
  have m2: "0 \<le> m2" "m2 < 20" by (simp_all add: m2_def)
  have dn: "20 * d \<le> 19 * n" "19 * n \<le> 20 * d + 19" using y m2 by linarith+
  have "(20 * d) * tps \<le> (19 * n) * tps" using dn(1) assms(1) by (intro mult_right_mono) simp_all
  then have Y1: "20 * Y \<le> 19 * X" by (simp add: X_def Y_def algebra_simps)
  have "(19 * n) * tps \<le> (20 * d + 19) * tps" using dn(2) assms(1) by (intro mult_right_mono) simp_all
  then have Y2: "19 * X \<le> 20 * Y + 19 * tps" by (simp add: X_def Y_def algebra_simps)
  have b1: "20 * d * tps \<le> 19000 * A" using Y1 X(1) by (simp add: Y_def)
  have "19000 * A < 20 * Y + 40 * tps" using Y2 X(2) assms(1) by simp
  then have b2: "19000 * A < 20 * (d + 2) * tps" by (simp add: Y_def algebra_simps)
  have q: "0 < A \<longrightarrow> go_quo (pacing_delay A tps) A = pacing_delay A tps div A"
    using d0 by (simp add: e go_quo_nonneg)
  have s: "pacing_delay 10 5 = 1900 * 1000000" "go_quo (pacing_delay 10 5) 10 = 190 * 1000000"
    by (simp_all add: ex_pacing_delay go_quo_def)
  have w: "\<forall>wk\<in>set (fst (snd (Start world cfg))).
             w_sleepTime wk = pacing_delay (int (length (Accounts cfg))) (TransactionsPerSecond cfg)"
    using Start_workers[of world cfg] by (auto dest!: in_set_takeD assigned_sleepTime)
  define sd where "sd = go_quo (pacing_delay (int (length (Accounts cfg))) (TransactionsPerSecond cfg))
                           (int (length (Accounts cfg)))"
  define ws where "ws = fst (snd (Start world cfg))"
  define launch where "launch = snd (snd (Start world cfg))"
  from Start_trace[of world cfg] obtain tl where
    tr: "launch = launch_trace (launch_wait world) sd ws 0 @ tl"
    and tl: "tl = [] \<or> (\<exists>w. tl = [Lv_waitFor sd w])"
    unfolding sd_def ws_def launch_def by blast
  have l1: "2 * i + 1 < length launch \<and>
            launch ! (2 * i) = Lv_waitFor sd (snd (waitFor (launch_wait world i) sd)) \<and>
            launch ! (2 * i + 1) = Lv_Go (ws ! i)" if i: "i < length ws" for i
  proof -
    have len: "2 * i + 1 < length (launch_trace (launch_wait world) sd ws 0)"
      using i by (simp add: length_launch_trace)
    then have "2 * i < length (launch_trace (launch_wait world) sd ws 0)" by simp
    with len nth_launch_trace[OF i, of "launch_wait world" sd 0] show ?thesis
      unfolding tr by (simp add: nth_append)
  qed
  have l2: "t = sd" if "Lv_waitFor t w \<in> set launch" for t w
    using that tl launch_trace_waits[of t w "launch_wait world" sd ws 0] unfolding tr by auto
  have l3: "snd (waitFor (launch_wait world i) sd) = max 0 sd"
    if "ctx_done_after (launch_wait world i) = None" for i
    using that by (simp add: waitFor_def Let_def)
  have L: "let stagger = sd; workers = ws; launch = launch
          in (\<forall>i<length workers.
                 2 * i + 1 < length launch \<and>
                 launch ! (2 * i) = Lv_waitFor stagger (snd (waitFor (launch_wait world i) stagger)) \<and>
                 launch ! (2 * i + 1) = Lv_Go (workers ! i))
           \<and> (\<forall>t w. Lv_waitFor t w \<in> set launch \<longrightarrow> t = stagger)
           \<and> (\<forall>i. ctx_done_after (launch_wait world i) = None \<longrightarrow>
                 snd (waitFor (launch_wait world i) stagger) = max 0 stagger)"
    unfolding Let_def using l1 l2 l3 by blast
  from e b1 b2 q s w L[unfolded sd_def ws_def launch_def] show ?thesis unfolding d_def n_def by simp
qed

theorem pacing_parameters_witness:
  "(0::int) < 3 \<and> (0::int) \<le> 10 \<and> (10::int) \<le> 1000000000
   \<and> pacing_delay 10 3 = 3166 * 1000000
   \<and> (20 * 3166 * 3 \<le> 19000 * (10::int)) \<and> (19000 * (10::int) < 20 * (3166 + 2) * 3)
   \<and> go_quo (pacing_delay 10 3) 10 = 316600000
   \<and> pacing_delay 10 5 = 1900000000
   \<and> map w_sleepTime (fst (snd (Start ex_world ex_cfg))) = [570000000, 570000000, 570000000]
   \<and> go_quo (pacing_delay (int (length (Accounts ex_cfg))) (TransactionsPerSecond ex_cfg))
        (int (length (Accounts ex_cfg))) = 190000000
   \<and> (0::nat) < length (fst (snd (Start ex_world ex_cfg)))
   \<and> snd (snd (Start ex_world ex_cfg)) ! (2 * 0) = Lv_waitFor 190000000 190000000
   \<and> snd (snd (Start ex_world ex_cfg)) ! (2 * 0 + 1) = Lv_Go ex_w1
   \<and> snd (snd (Start ex_world ex_cfg)) = ex_launch
   \<and> ctx_done_after (launch_wait ex_world 0) = None"
proof -
  have a: "(0::int) < 3" "(0::int) \<le> 10" "(10::int) \<le> 1000000000" by simp_all
  have v: "19 * ((10::int) * 1000 div 3) div 20 = 3166" by simp
  have sd: "go_quo (pacing_delay (int (length (Accounts ex_cfg))) (TransactionsPerSecond ex_cfg))
        (int (length (Accounts ex_cfg))) = 190000000"
    by (simp add: ex_cfg_def ex_accounts_def ex_pacing_delay go_quo_def)
  note t = pacing_parameters[OF a, of ex_world ex_cfg, unfolded v sd Let_def]
  from t have p: "pacing_delay 10 3 = 3166 * 1000000" by blast
  have z: "(0::int) < 10" by simp
  from t z have "go_quo (pacing_delay 10 3) 10 = pacing_delay 10 3 div 10" by blast
  then have g: "go_quo (pacing_delay 10 3) 10 = 316600000" by (simp add: p)
  from t have "pacing_delay 10 5 = 1900 * 1000000" by blast
  then have s: "pacing_delay 10 5 = 1900000000" by simp
  have m: "map w_sleepTime (fst (snd (Start ex_world ex_cfg))) = [570000000, 570000000, 570000000]"
    by (simp add: ex_Start ex_w1_def ex_w2_def ex_w3_def)
  have i0: "(0::nat) < length (fst (snd (Start ex_world ex_cfg)))" by (simp add: ex_Start)
  have c0: "ctx_done_after (launch_wait ex_world 0) = None" by (simp add: ex_world_def timer_fires_def)
  from t c0 have w0: "snd (waitFor (launch_wait ex_world 0) 190000000) = max 0 190000000" by blast
  from t i0 have
    "snd (snd (Start ex_world ex_cfg)) ! (2 * 0) =
       Lv_waitFor 190000000 (snd (waitFor (launch_wait ex_world 0) 190000000)) \<and>
     snd (snd (Start ex_world ex_cfg)) ! (2 * 0 + 1) = Lv_Go (fst (snd (Start ex_world ex_cfg)) ! 0)"
    by blast
  then have l: "snd (snd (Start ex_world ex_cfg)) ! (2 * 0) = Lv_waitFor 190000000 190000000"
    "snd (snd (Start ex_world ex_cfg)) ! (2 * 0 + 1) = Lv_Go ex_w1"
    unfolding w0 by (simp_all add: ex_Start)
  have f: "snd (snd (Start ex_world ex_cfg)) = ex_launch" by (simp add: ex_Start)
  show ?thesis using p g s m sd i0 l f c0 by simp
qed



text \<open>
  Claim C7. The worker that \<open>Start\<close> starts as number \<open>i\<close> is the one of account \<open>i\<close>, and
  its client is the one at position \<open>i mod poolSize\<close> of the pool, which is then not
  empty. The worker keeps it: every transfer it submits, in any run, goes through that
  client and is signed for that account.
\<close>

theorem client_assignment:
  assumes "i < length (fst (snd (Start world cfg)))"
  shows "\<exists>pool. build_clients cfg = Inr (None, pool) \<and> pool \<noteq> [] \<and> i < length (Accounts cfg)
      \<and> w_acc (fst (snd (Start world cfg)) ! i) = Accounts cfg ! i
      \<and> w_client (fst (snd (Start world cfg)) ! i) = pool ! (i mod length pool)
      \<and> (\<forall>a c rcp v obs.
            Ev_Send a c rcp v \<in> set (snd (runBot cfg (w_acc (fst (snd (Start world cfg)) ! i))
                                          (w_sleepTime (fst (snd (Start world cfg)) ! i))
                                          (w_client (fst (snd (Start world cfg)) ! i)) obs))
            \<longrightarrow> a = Accounts cfg ! i \<and> c = pool ! (i mod length pool))"
proof -
  let ?d = "pacing_delay (int (length (Accounts cfg))) (TransactionsPerSecond cfg)"
  let ?cc = "capped_clientCount cfg"
  from assms Start_workers[of world cfg] obtain pool k where
    b: "build_clients cfg = Inr (None, pool)" and c0: "?cc \<noteq> 0" and k: "k \<le> length (Accounts cfg)"
    and ws: "fst (snd (Start world cfg)) = take k (assigned pool ?cc ?d (Accounts cfg) 0)"
    by auto
  note l = build_clients_length[OF b]
  have cc: "0 < ?cc" using l(2) c0 by linarith
  have ne: "pool \<noteq> []" using l(2) cc by auto
  have ik: "i < k" and iA: "i < length (Accounts cfg)"
    using assms k unfolding ws by (simp_all add: length_assigned)
  have "go_rem (int i) ?cc = int i mod ?cc" using cc by (intro go_rem_nonneg) simp_all
  also have "\<dots> = int (i mod length pool)" unfolding l(2)[symmetric] by (simp add: zmod_int)
  finally have idx: "nat (go_rem (int i) ?cc) = i mod length pool" by simp
  have w: "fst (snd (Start world cfg)) ! i =
      \<lparr>w_acc = Accounts cfg ! i, w_sleepTime = ?d, w_client = pool ! (i mod length pool)\<rparr>"
    unfolding ws using ik iA idx by (simp add: nth_assigned)
  have sends: "\<forall>a c rcp v obs.
      Ev_Send a c rcp v \<in> set (snd (runBot cfg (Accounts cfg ! i) ?d (pool ! (i mod length pool)) obs))
      \<longrightarrow> a = Accounts cfg ! i \<and> c = pool ! (i mod length pool)"
    by (intro allI impI) (rule runBot_sends)
  show ?thesis unfolding w using b ne iA sends by (intro exI[of _ pool]) simp
qed

theorem client_assignment_witness:
  "(2::nat) < length (fst (snd (Start ex_world ex_cfg))) \<and> build_clients ex_cfg = Inr (None, [7, 8]) \<and>
   w_acc (fst (snd (Start ex_world ex_cfg)) ! 2) = \<lparr>Address = ''0xd3'', PrivateKey = ''s3''\<rparr> \<and>
   w_client (fst (snd (Start ex_world ex_cfg)) ! 2) = [7, 8] ! (2 mod 2) \<and>
   w_client (fst (snd (Start ex_world ex_cfg)) ! 0) = w_client (fst (snd (Start ex_world ex_cfg)) ! 2)"
proof -
  have l: "(2::nat) < length (fst (snd (Start ex_world ex_cfg)))" by (simp add: ex_Start)
  from client_assignment[OF l] obtain pool where p: "build_clients ex_cfg = Inr (None, pool)"
    and a: "w_acc (fst (snd (Start ex_world ex_cfg)) ! 2) = Accounts ex_cfg ! 2"
    and c: "w_client (fst (snd (Start ex_world ex_cfg)) ! 2) = pool ! (2 mod length pool)"
    by blast
  from p have pl: "pool = [7, 8]" by (simp add: ex_build_clients)
  have v: "Accounts ex_cfg ! 2 = \<lparr>Address = ''0xd3'', PrivateKey = ''s3''\<rparr>"
    by (simp add: ex_cfg_def ex_accounts_def)
  have w0: "w_client (fst (snd (Start ex_world ex_cfg)) ! 0) = 7" by (simp add: ex_Start ex_w1_def)
  have len: "length [7::nat, 8] = 2" by simp
  have m: "[7, 8] ! (2 mod 2) = (7::nat)" "[7, 8] ! (2 mod length [7::nat, 8]) = (7::nat)"
    unfolding len by simp_all
  have c': "w_client (fst (snd (Start ex_world ex_cfg)) ! 2) = 7" using c unfolding pl m .
  show ?thesis unfolding m c' w0 using l ex_build_clients a v by simp
qed

text \<open>
  Claim C8. Take an iteration of the loop of \<open>runBot\<close> whose transfer is sent and
  confirmed; the next send is scheduled at the recorded send time plus the delay \<open>d\<close>.
  If the clock is past it, the iteration ends there and the loop goes on with the next
  one: \<open>waitFor\<close> is not called, so nothing is slept. Otherwise \<open>waitFor\<close> is called with
  the time left until the scheduled time; when it returns no error the worker has slept
  exactly that time (none when it is zero or negative) and the loop goes on with the next
  iteration; when it returns the error of the context, \<open>runBot\<close> returns that error at
  once. The time \<open>waitFor\<close> waits is never negative; it is the time asked for when the
  context is not cancelled, or is cancelled later; it is the time until the cancellation
  when that comes first. The loop does not panic (there are accounts, as there are for
  every worker that \<open>Start\<close> starts): no worker of \<open>Start\<close> panics.
\<close>

theorem pacing_sleep:
  assumes "send_err obs = None" and "mined_err obs = None" and "Accounts cfg \<noteq> []"
  shows "(now_sent obs + d < now_after obs \<longrightarrow>
            runBot cfg acc d cl (obs # rest) =
              (fst (runBot cfg acc d cl rest),
               [Ev_Send acc cl (Address (Accounts cfg ! (rand_draw obs mod length (Accounts cfg))))
                  (Amount cfg),
                Ev_WaitMined] @ snd (runBot cfg acc d cl rest)))
       \<and> (\<not> now_sent obs + d < now_after obs \<and>
          fst (waitFor (pace_wait obs) (now_sent obs + d - now_until obs)) = None \<longrightarrow>
            runBot cfg acc d cl (obs # rest) =
              (fst (runBot cfg acc d cl rest),
               [Ev_Send acc cl (Address (Accounts cfg ! (rand_draw obs mod length (Accounts cfg))))
                  (Amount cfg),
                Ev_WaitMined,
                Ev_waitFor (now_sent obs + d - now_until obs) (max 0 (now_sent obs + d - now_until obs))]
               @ snd (runBot cfg acc d cl rest)))
       \<and> (\<not> now_sent obs + d < now_after obs \<and>
          fst (waitFor (pace_wait obs) (now_sent obs + d - now_until obs)) = Some e \<longrightarrow>
            runBot cfg acc d cl (obs # rest) =
              (Returned (Some e),
               [Ev_Send acc cl (Address (Accounts cfg ! (rand_draw obs mod length (Accounts cfg))))
                  (Amount cfg),
                Ev_WaitMined,
                Ev_waitFor (now_sent obs + d - now_until obs)
                  (snd (waitFor (pace_wait obs) (now_sent obs + d - now_until obs)))]))
       \<and> 0 \<le> snd (waitFor s t)
       \<and> (ctx_done_after s = None \<longrightarrow> waitFor s t = (None, max 0 t))
       \<and> (ctx_done_after s = Some (c, e') \<and> max 0 c < max 0 t \<longrightarrow> waitFor s t = (Some e', max 0 c))
       \<and> (ctx_done_after s = Some (c, e') \<and> max 0 t < max 0 c \<longrightarrow> waitFor s t = (None, max 0 t))
       \<and> (\<forall>p. fst (runBot cfg acc d cl obss) \<noteq> Panicked p)
       \<and> (\<forall>i p. worker_result world cfg' (fst (snd (Start world cfg'))) i \<noteq> Panicked p)"
proof -
  let ?send = "Ev_Send acc cl (Address (Accounts cfg ! (rand_draw obs mod length (Accounts cfg))))
                  (Amount cfg)"
  let ?wt = "now_sent obs + d - now_until obs"
  note n = nextTransfer_Inr[OF assms(3)]
  have 1: "runBot cfg acc d cl (obs # rest) =
              (fst (runBot cfg acc d cl rest), [?send, Ev_WaitMined] @ snd (runBot cfg acc d cl rest))"
    if "now_sent obs + d < now_after obs"
  proof -
    have i: "runBot_iter cfg acc d cl obs = (Running, [?send, Ev_WaitMined])"
      using assms(1,2) that by (simp add: runBot_iter_def n Let_def)
    then have "fst (runBot_iter cfg acc d cl obs) = Running" by simp
    from runBot_Cons_Running[OF this, of rest] show ?thesis unfolding i by simp
  qed
  have 2: "runBot cfg acc d cl (obs # rest) =
              (fst (runBot cfg acc d cl rest),
               [?send, Ev_WaitMined, Ev_waitFor ?wt (max 0 ?wt)] @ snd (runBot cfg acc d cl rest))"
    if "\<not> now_sent obs + d < now_after obs" and w: "fst (waitFor (pace_wait obs) ?wt) = None"
  proof -
    from waitFor_cases[of "pace_wait obs" ?wt None "snd (waitFor (pace_wait obs) ?wt)"] w
    have wf: "waitFor (pace_wait obs) ?wt = (None, max 0 ?wt)"
      by (cases "waitFor (pace_wait obs) ?wt") auto
    have i: "runBot_iter cfg acc d cl obs = (Running, [?send, Ev_WaitMined, Ev_waitFor ?wt (max 0 ?wt)])"
      using assms(1,2) that(1) by (simp add: runBot_iter_def n wf Let_def)
    then have "fst (runBot_iter cfg acc d cl obs) = Running" by simp
    from runBot_Cons_Running[OF this, of rest] show ?thesis unfolding i by simp
  qed
  have 3: "runBot cfg acc d cl (obs # rest) =
              (Returned (Some e),
               [?send, Ev_WaitMined, Ev_waitFor ?wt (snd (waitFor (pace_wait obs) ?wt))])"
    if "\<not> now_sent obs + d < now_after obs" and w: "fst (waitFor (pace_wait obs) ?wt) = Some e"
  proof -
    have i: "runBot_iter cfg acc d cl obs =
        (Returned (Some e), [?send, Ev_WaitMined, Ev_waitFor ?wt (snd (waitFor (pace_wait obs) ?wt))])"
      using assms(1,2) that(1) w by (auto simp: runBot_iter_def n Let_def split: prod.splits)
    then have "fst (runBot_iter cfg acc d cl obs) \<noteq> Running" by simp
    from runBot_Cons_stop[OF this, of rest] show ?thesis unfolding i by simp
  qed
  have 4: "0 \<le> snd (waitFor s t)"
    using waitFor_cases[of s t "fst (waitFor s t)" "snd (waitFor s t)"] by simp
  have 5: "ctx_done_after s = None \<longrightarrow> waitFor s t = (None, max 0 t)"
    by (simp add: waitFor_def Let_def)
  have 6: "ctx_done_after s = Some (c, e') \<and> max 0 c < max 0 t \<longrightarrow> waitFor s t = (Some e', max 0 c)"
    by (simp add: waitFor_def Let_def)
  have 7: "ctx_done_after s = Some (c, e') \<and> max 0 t < max 0 c \<longrightarrow> waitFor s t = (None, max 0 t)"
    by (auto simp: waitFor_def Let_def)
  have 8: "\<forall>p. fst (runBot cfg acc d cl obss) \<noteq> Panicked p"
    using runBot_no_panic[OF assms(3)] by blast
  have 9: "worker_result world cfg' (fst (snd (Start world cfg'))) i \<noteq> Panicked p" for i p
  proof (cases "i < length (fst (snd (Start world cfg')))")
    case True
    then have "fst (snd (Start world cfg')) \<noteq> []" by auto
    with Start_workers[of world cfg'] have "Accounts cfg' \<noteq> []" by blast
    then show ?thesis by (rule worker_result_no_panic)
  next
    case False
    then show ?thesis by (simp add: worker_result_def)
  qed
  from 1 2 3 4 5 6 7 8 9 show ?thesis by blast
qed

theorem pacing_sleep_witness:
  "send_err ex_iter_late = None \<and> mined_err ex_iter_late = None \<and> Accounts ex_cfg \<noteq> [] \<and>
   now_sent ex_iter_late + 570000000 < now_after ex_iter_late \<and>
   runBot ex_cfg ex_acc 570000000 (7::nat) [ex_iter_late] =
     (Running, [Ev_Send ex_acc (7::nat) ''0xd2'' 10000000, Ev_WaitMined]) \<and>
   \<not> now_sent ex_iter_on_time + 570000000 < now_after ex_iter_on_time \<and>
   runBot ex_cfg ex_acc 570000000 (7::nat) [ex_iter_on_time, ex_iter_late] =
     (Running, [Ev_Send ex_acc (7::nat) ''0xd2'' 10000000, Ev_WaitMined, Ev_waitFor 469999900 469999900,
                Ev_Send ex_acc (7::nat) ''0xd2'' 10000000, Ev_WaitMined]) \<and>
   runBot ex_cfg ex_acc 570000000 (7::nat) [ex_iter_cancelled, ex_iter_late] =
     (Returned (Some Canceled),
      [Ev_Send ex_acc (7::nat) ''0xd2'' 10000000, Ev_WaitMined, Ev_waitFor 469999900 5000]) \<and>
   waitFor timer_fires (- 7) = (None, 0) \<and>
   worker_result ex_world ex_cfg (fst (snd (Start ex_world ex_cfg))) 0 = Returned (Some Canceled)"
proof -
  have ne: "Accounts ex_cfg \<noteq> []" by (simp add: ex_cfg_def ex_accounts_def)
  have n: "Address (Accounts ex_cfg ! (4 mod length (Accounts ex_cfg))) = ''0xd2''"
    "Amount ex_cfg = 10000000"
    by (simp_all add: ex_cfg_def ex_accounts_def)
  have a: "send_err ex_iter_late = None" "mined_err ex_iter_late = None"
    "now_sent ex_iter_late + 570000000 < now_after ex_iter_late" "rand_draw ex_iter_late = 4"
    by (simp_all add: ex_iter_late_def)
  have b: "send_err ex_iter_on_time = None" "mined_err ex_iter_on_time = None"
    "\<not> now_sent ex_iter_on_time + 570000000 < now_after ex_iter_on_time" "rand_draw ex_iter_on_time = 4"
    "now_sent ex_iter_on_time + 570000000 - now_until ex_iter_on_time = 469999900"
    "pace_wait ex_iter_on_time = timer_fires"
    by (simp_all add: ex_iter_on_time_def)
  have c: "send_err ex_iter_cancelled = None" "mined_err ex_iter_cancelled = None"
    "\<not> now_sent ex_iter_cancelled + 570000000 < now_after ex_iter_cancelled" "rand_draw ex_iter_cancelled = 4"
    "now_sent ex_iter_cancelled + 570000000 - now_until ex_iter_cancelled = 469999900"
    "pace_wait ex_iter_cancelled = ctx_cancelled"
    by (simp_all add: ex_iter_cancelled_def)
  have t: "ctx_done_after timer_fires = None" by (simp add: timer_fires_def)
  have x: "ctx_done_after ctx_cancelled = Some (5000, Canceled)" by (simp add: ctx_cancelled_def)
  have e: "runBot ex_cfg ex_acc 570000000 (7::nat) [] = (Running, [])" by simp
  from pacing_sleep[OF a(1,2) ne, of 570000000 ex_acc 7 "[]" Canceled timer_fires "- 7"] a(3) t
  have A: "runBot ex_cfg ex_acc 570000000 (7::nat) [ex_iter_late] =
     (Running, [Ev_Send ex_acc (7::nat) ''0xd2'' 10000000, Ev_WaitMined])"
    and W: "waitFor timer_fires (- 7) = (None, 0)"
    unfolding e a(4) n by simp_all
  from pacing_sleep[OF b(1,2) ne, of 570000000 ex_acc 7 "[ex_iter_late]" Canceled timer_fires 469999900] b(3) t
  have tf: "waitFor timer_fires 469999900 = (None, 469999900)"
    and B0: "fst (waitFor timer_fires 469999900) = None \<longrightarrow>
      runBot ex_cfg ex_acc 570000000 (7::nat) [ex_iter_on_time, ex_iter_late] =
      (fst (runBot ex_cfg ex_acc 570000000 (7::nat) [ex_iter_late]),
       [Ev_Send ex_acc (7::nat) ''0xd2'' 10000000, Ev_WaitMined, Ev_waitFor 469999900 (max 0 469999900)]
       @ snd (runBot ex_cfg ex_acc 570000000 (7::nat) [ex_iter_late]))"
    unfolding b(4,5,6) n by simp_all
  from B0 have B: "runBot ex_cfg ex_acc 570000000 (7::nat) [ex_iter_on_time, ex_iter_late] =
     (Running, [Ev_Send ex_acc (7::nat) ''0xd2'' 10000000, Ev_WaitMined, Ev_waitFor 469999900 469999900,
                Ev_Send ex_acc (7::nat) ''0xd2'' 10000000, Ev_WaitMined])"
    unfolding tf A by simp
  from pacing_sleep[OF c(1,2) ne, of 570000000 ex_acc 7 "[ex_iter_late]" Canceled ctx_cancelled 469999900
      5000 Canceled] c(3) x
  have cw: "waitFor ctx_cancelled 469999900 = (Some Canceled, 5000)"
    and C0: "fst (waitFor ctx_cancelled 469999900) = Some Canceled \<longrightarrow>
      runBot ex_cfg ex_acc 570000000 (7::nat) [ex_iter_cancelled, ex_iter_late] =
      (Returned (Some Canceled),
       [Ev_Send ex_acc (7::nat) ''0xd2'' 10000000, Ev_WaitMined,
        Ev_waitFor 469999900 (snd (waitFor ctx_cancelled 469999900))])"
    unfolding c(4,5,6) n by simp_all
  from C0 have C: "runBot ex_cfg ex_acc 570000000 (7::nat) [ex_iter_cancelled, ex_iter_late] =
     (Returned (Some Canceled),
      [Ev_Send ex_acc (7::nat) ''0xd2'' 10000000, Ev_WaitMined, Ev_waitFor 469999900 5000])"
    unfolding cw by simp
  have S: "worker_result ex_world ex_cfg (fst (snd (Start ex_world ex_cfg))) 0 = Returned (Some Canceled)"
    unfolding ex_Start
    by (simp add: worker_result_def ex_world_def ex_runBot ex_w1_def del: runBot.simps)
  show ?thesis using a(1,2,3) b(3) ne A B C W S by simp
qed

text \<open>
  Claim C5. Every return of \<open>runBot\<close> carries an error: a worker never returns \<open>nil\<close>. An
  error that \<open>waitFor\<close> returns is the error of the cancelled context, and \<open>waitFor\<close> does
  return it when the context is cancelled before the timer fires. So \<open>Start\<close> never
  returns \<open>nil\<close> (it could only if every worker did), and it blocks in \<open>group.Wait()\<close>
  only while some worker it started has not returned. When the pool of clients was
  built and cancellation is the only error anything observes (the waits of the launch
  loop, the sends, the confirmations, the pacing waits), whatever \<open>Start\<close> returns is the
  cancellation error, possibly wrapped by \<open>runBot\<close>.

  And cancelling makes \<open>Start\<close> return. A worker whose iterations honour a cancellation
  at time \<open>T\<close> and that has an iteration beginning at \<open>T\<close> or later returns, and what it
  returns is the cancellation error; a worker that observes neither an error nor a
  cancellation does not return. When \<open>Start\<close> has its pool, a rate, accounts and a positive
  count of clients, and every worker is such a worker and has been given the time to
  end, \<open>Start\<close> returns the cancellation error.
\<close>

theorem Start_returns_cancellation:
  "fst (runBot cfg acc d cl obs) \<noteq> Returned None
   \<and> (\<forall>e. fst (waitFor s t) = Some e \<longrightarrow> (\<exists>c. ctx_done_after s = Some (c, e)))
   \<and> (ctx_done_after s = Some (c', e') \<and> max 0 c' < max 0 t \<longrightarrow> fst (waitFor s t) = Some e')
   \<and> fst (Start world cfg) \<noteq> Returns None
   \<and> (fst (Start world cfg) = Blocks \<longrightarrow>
        (\<exists>i<length (fst (snd (Start world cfg))).
            worker_result world cfg (fst (snd (Start world cfg))) i = Running
            \<or> i \<notin> set (return_order world)))
   \<and> ((\<exists>pool. build_clients cfg = Inr (None, pool)) \<and>
        (\<forall>i. select_cancel_only (launch_wait world i)) \<and>
        (\<forall>i. list_all iter_cancel_only (worker_obs world i)) \<and>
        fst (Start world cfg) = Returns r \<longrightarrow>
        (\<exists>e. r = Some e \<and> is_Canceled e))
   \<and> (list_all (honours_cancel T) obs \<and> list_ex (\<lambda>o1. T \<le> now_sent o1) obs \<and> Accounts cfg \<noteq> [] \<longrightarrow>
        (\<exists>e. fst (runBot cfg acc d cl obs) = Returned (Some e) \<and> is_Canceled e))
   \<and> (list_all undisturbed obs \<and> Accounts cfg \<noteq> [] \<longrightarrow> fst (runBot cfg acc d cl obs) = Running)
   \<and> ((\<exists>pool. build_clients cfg = Inr (None, pool)) \<and> TransactionsPerSecond cfg \<noteq> 0 \<and>
        Accounts cfg \<noteq> [] \<and> 0 < ClientCount cfg \<and>
        (\<forall>i. select_cancel_only (launch_wait world i)) \<and>
        (\<forall>i<length (Accounts cfg).
            list_all (honours_cancel T) (worker_obs world i) \<and>
            list_ex (\<lambda>o1. T \<le> now_sent o1) (worker_obs world i) \<and>
            i \<in> set (return_order world)) \<longrightarrow>
        (\<exists>e. fst (Start world cfg) = Returns (Some e) \<and> is_Canceled e))"
proof -
  let ?sd = "go_quo (pacing_delay (int (length (Accounts cfg))) (TransactionsPerSecond cfg))
              (int (length (Accounts cfg)))"
  let ?ws = "fst (snd (Start world cfg))"
  have 1: "fst (runBot cfg acc d cl obs) \<noteq> Returned None" by (rule runBot_not_nil)
  have 2: "\<forall>e. fst (waitFor s t) = Some e \<longrightarrow> (\<exists>c. ctx_done_after s = Some (c, e))"
    using waitFor_cases[of s t "fst (waitFor s t)" "snd (waitFor s t)"] by auto
  have 3: "ctx_done_after s = Some (c', e') \<and> max 0 c' < max 0 t \<longrightarrow> fst (waitFor s t) = Some e'"
    by (simp add: waitFor_def Let_def)
  have 4: "fst (Start world cfg) \<noteq> Returns None"
  proof
    assume "fst (Start world cfg) = Returns None"
    from Start_Returns[OF this] show False by auto
  qed
  have 5: "fst (Start world cfg) = Blocks \<longrightarrow>
        (\<exists>i<length ?ws. worker_result world cfg ?ws i = Running \<or> i \<notin> set (return_order world))"
    using Start_Blocks by blast
  have R: "\<exists>e. r = Some e \<and> is_Canceled e"
    if b: "\<exists>pool. build_clients cfg = Inr (None, pool)"
      and lw: "\<forall>i. select_cancel_only (launch_wait world i)"
      and wo: "\<forall>i<length ?ws. list_all iter_cancel_only (worker_obs world i)"
      and R: "fst (Start world cfg) = Returns r" for r
  proof -
    from Start_Returns[OF R] b consider
      (launch) e i where "r = Some e" "fst (waitFor (launch_wait world i) ?sd) = Some e"
      | (worker) e i where "r = Some e" "(i, Some e) \<in> set (worker_returns world cfg ?ws)"
      by auto
    then show ?thesis
    proof cases
      case launch
      from waitFor_cases[of "launch_wait world i" ?sd "Some e" "snd (waitFor (launch_wait world i) ?sd)"]
        launch(2)
      obtain c where "ctx_done_after (launch_wait world i) = Some (c, e)"
        by (metis prod.collapse)
      with lw[rule_format, of i] have "is_Canceled e" by (simp add: select_cancel_only_def)
      with launch(1) show ?thesis by simp
    next
      case worker
      from worker_returns_mem[OF worker(2)]
      have i: "i < length ?ws"
        and "fst (runBot cfg (w_acc (?ws ! i)) (w_sleepTime (?ws ! i)) (w_client (?ws ! i))
                   (worker_obs world i)) = Returned (Some e)" by simp_all
      from runBot_cancel[OF wo[rule_format, OF i] this(2)] worker(1) show ?thesis by simp
    qed
  qed
  have 6: "(\<exists>pool. build_clients cfg = Inr (None, pool)) \<and>
        (\<forall>i. select_cancel_only (launch_wait world i)) \<and>
        (\<forall>i. list_all iter_cancel_only (worker_obs world i)) \<and>
        fst (Start world cfg) = Returns r \<longrightarrow>
        (\<exists>e. r = Some e \<and> is_Canceled e)"
    using R[of r] by blast
  have 7: "list_all (honours_cancel T) obs \<and> list_ex (\<lambda>o1. T \<le> now_sent o1) obs \<and> Accounts cfg \<noteq> [] \<longrightarrow>
        (\<exists>e. fst (runBot cfg acc d cl obs) = Returned (Some e) \<and> is_Canceled e)"
    using runBot_honours_cancel[of T obs cfg acc d cl] by blast
  have 8: "list_all undisturbed obs \<and> Accounts cfg \<noteq> [] \<longrightarrow> fst (runBot cfg acc d cl obs) = Running"
    using runBot_undisturbed[of obs cfg acc d cl] by blast
  have 9: "\<exists>e. fst (Start world cfg) = Returns (Some e) \<and> is_Canceled e"
    if b: "\<exists>pool. build_clients cfg = Inr (None, pool)" and t: "TransactionsPerSecond cfg \<noteq> 0"
      and a: "Accounts cfg \<noteq> []" and c: "0 < ClientCount cfg"
      and lw: "\<forall>i. select_cancel_only (launch_wait world i)"
      and h: "\<forall>i<length (Accounts cfg).
            list_all (honours_cancel T) (worker_obs world i) \<and>
            list_ex (\<lambda>o1. T \<le> now_sent o1) (worker_obs world i) \<and>
            i \<in> set (return_order world)"
  proof -
    from b obtain pool where p: "build_clients cfg = Inr (None, pool)" by blast
    have len: "length ?ws \<le> length (Accounts cfg)"
      using Start_workers[of world cfg] by (auto simp: length_assigned)
    have ret: "\<exists>e. worker_result world cfg ?ws i = Returned (Some e) \<and> is_Canceled e"
      if i: "i < length ?ws" for i
    proof -
      from i len h have "list_all (honours_cancel T) (worker_obs world i)"
        "list_ex (\<lambda>o1. T \<le> now_sent o1) (worker_obs world i)" by auto
      from runBot_honours_cancel[OF this a] i show ?thesis by (simp add: worker_result_def)
    qed
    have co: "\<forall>i<length ?ws. list_all iter_cancel_only (worker_obs world i)"
    proof (intro allI impI)
      fix i assume "i < length ?ws"
      with len h have "list_all (honours_cancel T) (worker_obs world i)" by auto
      then show "list_all iter_cancel_only (worker_obs world i)"
        by (simp add: list_all_iff honours_cancel_def)
    qed
    have nb: "fst (Start world cfg) \<noteq> Blocks"
    proof
      assume "fst (Start world cfg) = Blocks"
      from Start_Blocks[OF this] obtain i where i: "i < length ?ws"
        and "worker_result world cfg ?ws i = Running \<or> i \<notin> set (return_order world)" by blast
      with ret[OF i] h len show False by auto
    qed
    have np: "fst (Start world cfg) \<noteq> Panics q" for q by (rule Start_no_panic[OF p t a c])
    from nb np obtain r where r: "fst (Start world cfg) = Returns r"
      by (cases "fst (Start world cfg)") auto
    from R[OF b lw co r] r show ?thesis by auto
  qed
  from 1 2 3 4 5 6 7 8 9 show ?thesis by blast
qed

theorem Start_returns_cancellation_witness:
  "build_clients ex_cfg = Inr (None, [7, 8]) \<and> TransactionsPerSecond ex_cfg \<noteq> 0 \<and>
   Accounts ex_cfg \<noteq> [] \<and> 0 < ClientCount ex_cfg \<and>
   select_cancel_only timer_fires \<and>
   list_all (honours_cancel 570000000) [ex_iter_tie, ex_iter_send_cancelled] \<and>
   list_ex (\<lambda>o1. 570000000 \<le> now_sent o1) [ex_iter_tie, ex_iter_send_cancelled] \<and>
   set (return_order ex_world_cancel) = {0, 1, 2} \<and>
   (\<exists>e. fst (runBot ex_cfg ex_acc 570000000 (7::nat) [ex_iter_tie, ex_iter_send_cancelled])
           = Returned (Some e) \<and> is_Canceled e) \<and>
   (\<exists>e. fst (Start ex_world_cancel ex_cfg) = Returns (Some e) \<and> is_Canceled e) \<and>
   fst (Start ex_world_cancel ex_cfg) = Returns (Some (Errorf ''Error sending transaction'' Canceled)) \<and>
   fst (waitFor ctx_cancelled 469999900) = Some Canceled \<and>
   fst (Start ex_world ex_cfg) = Returns (Some Canceled) \<and> is_Canceled Canceled \<and>
   fst (Start (ex_world\<lparr>return_order := [0]\<rparr>) ex_cfg) = Blocks \<and>
   2 \<notin> set (return_order (ex_world\<lparr>return_order := [0]\<rparr>)) \<and>
   list_all undisturbed [ex_iter_on_time, ex_iter_late] \<and>
   fst (runBot ex_cfg ex_acc 570000000 (7::nat) [ex_iter_on_time, ex_iter_late]) = Running"
proof -
  have s: "select_cancel_only timer_fires" by (simp add: select_cancel_only_def timer_fires_def)
  have c: "TransactionsPerSecond ex_cfg \<noteq> 0" "Accounts ex_cfg \<noteq> []" "0 < ClientCount ex_cfg"
    "length (Accounts ex_cfg) = 3"
    by (simp_all add: ex_cfg_def ex_accounts_def)
  have b: "\<exists>pool. build_clients ex_cfg = Inr (None, pool)" using ex_build_clients by blast
  have i1: "iter_cancel_only ex_iter_on_time"
    by (simp add: iter_cancel_only_def cancel_or_nil_def select_cancel_only_def
          ex_iter_on_time_def timer_fires_def)
  have i2: "iter_cancel_only ex_iter_cancelled"
    by (simp add: iter_cancel_only_def cancel_or_nil_def select_cancel_only_def
          ex_iter_cancelled_def ctx_cancelled_def)
  have h: "list_all (honours_cancel 570000000) [ex_iter_tie, ex_iter_send_cancelled]"
    by (simp add: honours_cancel_def iter_cancel_only_def cancel_or_nil_def select_cancel_only_def
          ex_iter_tie_def ex_iter_send_cancelled_def timer_fires_def)
  have x: "list_ex (\<lambda>o1. 570000000 \<le> now_sent o1) [ex_iter_tie, ex_iter_send_cancelled]"
    by (simp add: ex_iter_send_cancelled_def)
  have u: "list_all undisturbed [ex_iter_on_time, ex_iter_late]"
    by (simp add: undisturbed_def ex_iter_on_time_def ex_iter_late_def timer_fires_def)
  have o: "set (return_order ex_world_cancel) = {0, 1, 2}"
    by (auto simp: ex_world_cancel_def)
  have lw: "\<forall>i. select_cancel_only (launch_wait ex_world i)" using s by (simp add: ex_world_def)
  have wo: "\<forall>i. list_all iter_cancel_only (worker_obs ex_world i)" using i1 i2 by (simp add: ex_world_def)
  have lw': "\<forall>i. select_cancel_only (launch_wait ex_world_cancel i)"
    using s by (simp add: ex_world_cancel_def)
  have wo': "\<forall>i<length (Accounts ex_cfg).
      list_all (honours_cancel 570000000) (worker_obs ex_world_cancel i) \<and>
      list_ex (\<lambda>o1. 570000000 \<le> now_sent o1) (worker_obs ex_world_cancel i) \<and>
      i \<in> set (return_order ex_world_cancel)"
    unfolding o c(4) using h x by (auto simp: ex_world_cancel_def)
  have R: "fst (Start ex_world ex_cfg) = Returns (Some Canceled)" by (simp add: ex_Start)
  have x0: "ctx_done_after ctx_cancelled = Some (5000, Canceled) \<and> max 0 5000 < max 0 (469999900::int)"
    by (simp add: ctx_cancelled_def)
  note t = Start_returns_cancellation[of ex_cfg ex_acc 570000000 7 "[ex_iter_tie, ex_iter_send_cancelled]"
      ctx_cancelled 469999900 5000 Canceled ex_world_cancel "Some Canceled" 570000000]
  from t h x c(2)
  have rb: "\<exists>e. fst (runBot ex_cfg ex_acc 570000000 (7::nat) [ex_iter_tie, ex_iter_send_cancelled])
           = Returned (Some e) \<and> is_Canceled e" by blast
  from t b c(1,2,3) lw' wo'
  have st: "\<exists>e. fst (Start ex_world_cancel ex_cfg) = Returns (Some e) \<and> is_Canceled e" by blast
  from t x0 have w: "fst (waitFor ctx_cancelled 469999900) = Some Canceled" by blast
  have sc: "fst (Start ex_world_cancel ex_cfg) = Returns (Some (Errorf ''Error sending transaction'' Canceled))"
    by (simp add: ex_Start_cancel)
  note t2 = Start_returns_cancellation[of ex_cfg ex_acc 570000000 7 "[ex_iter_on_time, ex_iter_late]"
      ctx_cancelled 469999900 5000 Canceled ex_world "Some Canceled" 570000000]
  from t2 b lw wo R have "\<exists>e. Some Canceled = Some e \<and> is_Canceled e" by blast
  then have ic: "is_Canceled Canceled" by simp
  from t2 u c(2)
  have ru: "fst (runBot ex_cfg ex_acc 570000000 (7::nat) [ex_iter_on_time, ex_iter_late]) = Running"
    by blast
  have B: "fst (Start (ex_world\<lparr>return_order := [0]\<rparr>) ex_cfg) = Blocks"
    by (simp add: ex_Start_Blocks)
  have n2: "2 \<notin> set (return_order (ex_world\<lparr>return_order := [0]\<rparr>))" by simp
  show ?thesis using ex_build_clients c(1,2,3) s h x o rb st sc w R ic B n2 u ru by simp
qed

text \<open>
  Claim C10, as amended. When the configured client count is not negative and no call
  of the factory fails, \<open>Start\<close> panics with a division by zero, before any worker is
  started and before the launch loop has waited, in each of these cases: the rate is
  zero; there is no account; the count of clients is zero while the rate is not and
  there are accounts (the remainder \<open>i % clientCount\<close>). With a rate that is not zero,
  some account and a positive count it does not panic.
\<close>

theorem Start_panics:
  assumes "0 \<le> ClientCount cfg"
    and "\<forall>k. int k < min (ClientCount cfg) 100 \<longrightarrow> snd (ClientFactory cfg k) = None"
  shows "(TransactionsPerSecond cfg = 0 \<or> Accounts cfg = [] \<longrightarrow>
            Start world cfg = (Panics DivideByZero, [], []))
       \<and> (TransactionsPerSecond cfg \<noteq> 0 \<and> Accounts cfg \<noteq> [] \<and> ClientCount cfg = 0 \<longrightarrow>
            Start world cfg = (Panics DivideByZero, [], []))
       \<and> (TransactionsPerSecond cfg \<noteq> 0 \<and> Accounts cfg \<noteq> [] \<and> 0 < ClientCount cfg \<longrightarrow>
            (\<forall>p. fst (Start world cfg) \<noteq> Panics p))"
proof -
  from build_clients_succeeds[of cfg] assms obtain pool where b: "build_clients cfg = Inr (None, pool)"
    by (auto simp: clientCap_def)
  have 1: "TransactionsPerSecond cfg = 0 \<or> Accounts cfg = [] \<longrightarrow>
            Start world cfg = (Panics DivideByZero, [], [])"
    using b by (auto simp: Start_def Let_def)
  have 2: "Start world cfg = (Panics DivideByZero, [], [])"
    if t: "TransactionsPerSecond cfg \<noteq> 0" and a: "Accounts cfg \<noteq> []" and c: "ClientCount cfg = 0"
  proof -
    have c0: "capped_clientCount cfg = 0" using c by (simp add: capped_clientCount_def clientCap_def)
    obtain acc rest where ar: "Accounts cfg = acc # rest" using a by (cases "Accounts cfg") auto
    show ?thesis unfolding Start_launch[OF b t a] c0 by (simp add: ar)
  qed
  have 3: "fst (Start world cfg) \<noteq> Panics p"
    if t: "TransactionsPerSecond cfg \<noteq> 0" and a: "Accounts cfg \<noteq> []" and c: "0 < ClientCount cfg" for p
    by (rule Start_no_panic[OF b t a c])
  from 1 2 3 show ?thesis by blast
qed

theorem Start_panics_witness:
  "0 \<le> ClientCount ex_cfg \<and>
   Start ex_world (ex_cfg\<lparr>TransactionsPerSecond := 0\<rparr>) = (Panics DivideByZero, [], []) \<and>
   Start ex_world (ex_cfg\<lparr>Accounts := []\<rparr>) = (Panics DivideByZero, [], []) \<and>
   Start ex_world (ex_cfg\<lparr>ClientCount := 0\<rparr>) = (Panics DivideByZero, [], []) \<and>
   fst (Start ex_world ex_cfg) = Returns (Some Canceled)"
proof -
  have h: "0 \<le> ClientCount (ex_cfg\<lparr>TransactionsPerSecond := 0\<rparr>)"
      "\<forall>k. int k < min (ClientCount (ex_cfg\<lparr>TransactionsPerSecond := 0\<rparr>)) 100
          \<longrightarrow> snd (ClientFactory (ex_cfg\<lparr>TransactionsPerSecond := 0\<rparr>) k) = None"
      "0 \<le> ClientCount (ex_cfg\<lparr>Accounts := []\<rparr>)"
      "\<forall>k. int k < min (ClientCount (ex_cfg\<lparr>Accounts := []\<rparr>)) 100
          \<longrightarrow> snd (ClientFactory (ex_cfg\<lparr>Accounts := []\<rparr>) k) = None"
      "0 \<le> ClientCount (ex_cfg\<lparr>ClientCount := 0\<rparr>)"
      "\<forall>k. int k < min (ClientCount (ex_cfg\<lparr>ClientCount := 0\<rparr>)) 100
          \<longrightarrow> snd (ClientFactory (ex_cfg\<lparr>ClientCount := 0\<rparr>) k) = None"
      "0 \<le> ClientCount ex_cfg"
    by (simp_all add: ex_cfg_def)
  from Start_panics[OF h(1,2), of ex_world]
  have 1: "Start ex_world (ex_cfg\<lparr>TransactionsPerSecond := 0\<rparr>) = (Panics DivideByZero, [], [])" by simp
  from Start_panics[OF h(3,4), of ex_world]
  have 2: "Start ex_world (ex_cfg\<lparr>Accounts := []\<rparr>) = (Panics DivideByZero, [], [])" by simp
  from Start_panics[OF h(5,6), of ex_world]
  have 3: "Start ex_world (ex_cfg\<lparr>ClientCount := 0\<rparr>) = (Panics DivideByZero, [], [])"
    by (simp add: ex_cfg_def ex_accounts_def)
  show ?thesis using 1 2 3 h(7) by (simp add: ex_Start)
qed

text \<open>
  The claim as it was stated fails: with a rate of zero and a factory whose first call
  fails, \<open>Start\<close> returns the error of the factory and does not panic.
\<close>

theorem Start_zero_rate_returns_dial_error:
  "TransactionsPerSecond (ex_cfg\<lparr>TransactionsPerSecond := 0, ClientFactory := (\<lambda>k. (0, Some (Failure ''dial'')))\<rparr>) = 0
   \<and> Start ex_world (ex_cfg\<lparr>TransactionsPerSecond := 0, ClientFactory := (\<lambda>k. (0, Some (Failure ''dial'')))\<rparr>)
       = (Returns (Some (Failure ''dial'')), [], [])
   \<and> fst (Start ex_world (ex_cfg\<lparr>TransactionsPerSecond := 0, ClientFactory := (\<lambda>k. (0, Some (Failure ''dial'')))\<rparr>))
       \<noteq> Panics DivideByZero"
  by (simp add: Start_def build_clients_def capped_clientCount_def clientCap_def ex_cfg_def
        dial_clients.simps Let_def)

end
